theory Spec2Isabelle
  imports Complex_Main "HOL-Library.Signed_Division" "HOL-Library.Word"
begin

unbundle bit_operations_syntax

section \<open>Olive node view: a shallow embedding\<close>

text \<open>
  The development follows the three source files of the sample:
  \<^verbatim>\<open>src/app/widget/nodeview/nodeviewitem.cpp\<close> (class \<^verbatim>\<open>NodeViewItem\<close>),
  \<^verbatim>\<open>src/unnamed/part_000\<close> (the implementation of class \<^verbatim>\<open>NodeViewScene\<close>) and
  \<^verbatim>\<open>src/unnamed/part_001\<close> (the implementation of class \<^verbatim>\<open>ColorSpaceChooser\<close>).
  The class headers are not among the sources.

  Conventions. A C++ \<^verbatim>\<open>int\<close> is an \<^typ>\<open>int\<close>; the values are font measurements and list
  sizes, far from the 32-bit range. Integer division is C++'s, truncating towards zero
  (\<open>sdiv\<close>). A \<^verbatim>\<open>qreal\<close> is a \<^typ>\<open>rat\<close>: arithmetic is exact, rounding of \<^verbatim>\<open>double\<close> is not
  modelled. A member \<^verbatim>\<open>name_\<close> of a class is the record field \<open>name\<close> (an Isabelle name
  cannot end with an underscore), prefixed with the class where two classes use the
  same name. A pointer is a natural number (an address), a null pointer is \<open>None\<close>, and
  dereferencing a null pointer is the error value \<open>NullPointerDereference\<close>.
  What the GUI toolkit does (font metrics, the scene's item list, selection flags,
  comboboxes, default event handlers) is either a parameter or a small model of the
  toolkit's documented behaviour, said so where it is introduced.
\<close>

subsection \<open>Points, rectangles, flow directions\<close>

type_synonym qreal = rat

text \<open>\<^verbatim>\<open>QPointF\<close>: the pair \<open>(x, y)\<close>.\<close>

type_synonym QPointF = "qreal \<times> qreal"

definition setX :: "QPointF \<Rightarrow> qreal \<Rightarrow> QPointF" where
  "setX p v = (v, snd p)"

definition setY :: "QPointF \<Rightarrow> qreal \<Rightarrow> QPointF" where
  "setY p v = (fst p, v)"

text \<open>\<^verbatim>\<open>QRectF(left, top, width, height)\<close>.\<close>

record QRectF =
  r_left :: qreal
  r_top :: qreal
  r_width :: qreal
  r_height :: qreal

definition setHeight :: "QRectF \<Rightarrow> qreal \<Rightarrow> QRectF" where
  "setHeight r h = r\<lparr>r_height := h\<rparr>"

definition r_right :: "QRectF \<Rightarrow> qreal" where
  "r_right r = r_left r + r_width r"

definition r_bottom :: "QRectF \<Rightarrow> qreal" where
  "r_bottom r = r_top r + r_height r"

definition r_center :: "QRectF \<Rightarrow> QPointF" where
  "r_center r = (r_left r + r_width r / 2, r_top r + r_height r / 2)"

text \<open>\<^verbatim>\<open>NodeViewCommon::FlowDirection\<close> and \<^verbatim>\<open>Qt::Orientation\<close>.\<close>

datatype FlowDirection = kLeftToRight | kRightToLeft | kTopToBottom | kBottomToTop

datatype Orientation = Horizontal | Vertical

text \<open>
  What the static helpers of \<^verbatim>\<open>NodeViewItem\<close> read from outside the class:
  \<^verbatim>\<open>QFontMetrics(QFont()).height()\<close>, the width
  \<^verbatim>\<open>QtUtils::QFontMetricsWidth(QFontMetrics(QFont()), "HHHHHHHHHHHHHHHH")\<close>, and
  \<^verbatim>\<open>NodeViewCommon::GetFlowOrientation\<close> (declared in a header that is not among the
  sources). All three are parameters.
\<close>

record metrics =
  font_height :: int
  font_width16 :: int
  GetFlowOrientation :: "FlowDirection \<Rightarrow> Orientation"

definition DefaultTextPadding :: "metrics \<Rightarrow> int" where
  "DefaultTextPadding m = font_height m sdiv 4"

definition DefaultItemHeight :: "metrics \<Rightarrow> int" where
  "DefaultItemHeight m = font_height m + DefaultTextPadding m * 2"

definition DefaultItemWidth :: "metrics \<Rightarrow> int" where
  "DefaultItemWidth m = font_width16 m"

definition DefaultItemBorder :: "metrics \<Rightarrow> int" where
  "DefaultItemBorder m = font_height m sdiv 12"

definition DefaultItemHorizontalPadding :: "metrics \<Rightarrow> FlowDirection \<Rightarrow> qreal" where
  "DefaultItemHorizontalPadding m dir =
     (if GetFlowOrientation m dir = Horizontal
      then of_int (DefaultItemWidth m) * (3 / 2)
      else of_int (DefaultItemWidth m) * (5 / 4))"

definition DefaultItemVerticalPadding :: "metrics \<Rightarrow> FlowDirection \<Rightarrow> qreal" where
  "DefaultItemVerticalPadding m dir =
     (if GetFlowOrientation m dir = Horizontal
      then of_int (DefaultItemHeight m) * (3 / 2)
      else of_int (DefaultItemHeight m) * 2)"

subsection \<open>Node coordinates and screen coordinates\<close>

text \<open>
  \<^verbatim>\<open>NodeViewItem::NodeToScreenPoint\<close>: the \<^verbatim>\<open>switch\<close> rewrites the by-value parameter
  \<open>p\<close>, then the two setters scale it, one coordinate after the other.
\<close>

definition NodeToScreenPoint :: "metrics \<Rightarrow> QPointF \<Rightarrow> FlowDirection \<Rightarrow> QPointF" where
  "NodeToScreenPoint m p direction =
     (let p1 = (case direction of
                  kLeftToRight \<Rightarrow> p
                | kRightToLeft \<Rightarrow> setX p (- fst p)
                | kTopToBottom \<Rightarrow> (snd p, fst p)
                | kBottomToTop \<Rightarrow> (snd p, - fst p));
          p2 = setX p1 (fst p1 * DefaultItemHorizontalPadding m direction);
          p3 = setY p2 (snd p2 * DefaultItemVerticalPadding m direction)
      in p3)"

text \<open>
  \<^verbatim>\<open>NodeViewItem::ScreenToNodePoint\<close>: the two divisions come first, the \<^verbatim>\<open>switch\<close>
  after them. (A division by a zero padding is \<open>0\<close> here and \<^verbatim>\<open>inf\<close> or \<^verbatim>\<open>nan\<close> in the
  program; the theorems on this function assume the paddings are not zero.)
\<close>

definition ScreenToNodePoint :: "metrics \<Rightarrow> QPointF \<Rightarrow> FlowDirection \<Rightarrow> QPointF" where
  "ScreenToNodePoint m p direction =
     (let p1 = setX p (fst p / DefaultItemHorizontalPadding m direction);
          p2 = setY p1 (snd p1 / DefaultItemVerticalPadding m direction)
      in (case direction of
            kLeftToRight \<Rightarrow> p2
          | kRightToLeft \<Rightarrow> setX p2 (- fst p2)
          | kTopToBottom \<Rightarrow> (snd p2, fst p2)
          | kBottomToTop \<Rightarrow> (- snd p2, fst p2)))"






text \<open>An environment for the concrete checks: a 16 pixel font, 128 pixels for sixteen H.\<close>

definition metrics0 :: metrics where
  "metrics0 = \<lparr>font_height = 16, font_width16 = 128,
               GetFlowOrientation = case_FlowDirection Horizontal Horizontal Vertical Vertical\<rparr>"

subsection \<open>The color-space chooser\<close>

datatype error = NullPointerDereference

text \<open>
  \<^verbatim>\<open>QComboBox\<close>, as far as the chooser uses it: the item texts and the current index,
  \<open>-1\<close> when there is no current item. This is the toolkit's behaviour for a
  combobox that is not editable, which is what \<^verbatim>\<open>new QComboBox()\<close> gives:
  \<^item> \<^verbatim>\<open>currentText()\<close> is the text of the current item, or the empty string;
  \<^item> \<^verbatim>\<open>clear()\<close> removes every item;
  \<^item> \<^verbatim>\<open>addItem(s)\<close> appends, and the first item added to an empty box becomes current;
  \<^item> \<^verbatim>\<open>findText(s)\<close> is the index of the first item with that text, or \<open>-1\<close>;
  \<^item> \<^verbatim>\<open>setCurrentText(s)\<close> makes the item found by \<^verbatim>\<open>findText(s)\<close> current, and does
    nothing when there is none.
\<close>

record QComboBox =
  cb_items :: "string list"
  cb_index :: int

definition new_QComboBox :: QComboBox where
  "new_QComboBox = \<lparr>cb_items = [], cb_index = - 1\<rparr>"

definition currentText :: "QComboBox \<Rightarrow> string" where
  "currentText cb =
     (if 0 \<le> cb_index cb \<and> cb_index cb < int (length (cb_items cb))
      then cb_items cb ! nat (cb_index cb) else [])"

definition clear_cb :: "QComboBox \<Rightarrow> QComboBox" where
  "clear_cb cb = cb\<lparr>cb_items := [], cb_index := - 1\<rparr>"

definition addItem :: "QComboBox \<Rightarrow> string \<Rightarrow> QComboBox" where
  "addItem cb s =
     cb\<lparr>cb_items := cb_items cb @ [s],
        cb_index := (if cb_items cb = [] then 0 else cb_index cb)\<rparr>"

fun index_of :: "'a list \<Rightarrow> 'a \<Rightarrow> int" where
  "index_of [] x = - 1"
| "index_of (y # ys) x =
     (if y = x then 0 else (let i = index_of ys x in if i < 0 then - 1 else i + 1))"

definition findText :: "QComboBox \<Rightarrow> string \<Rightarrow> int" where
  "findText cb s = index_of (cb_items cb) s"

definition setCurrentText :: "QComboBox \<Rightarrow> string \<Rightarrow> QComboBox" where
  "setCurrentText cb s =
     (let i = findText cb s in if i > - 1 then cb\<lparr>cb_index := i\<rparr> else cb)"

text \<open>
  \<^verbatim>\<open>ColorManager\<close> is a class of the program that is not among the sources; the chooser
  only asks it for lists and defaults, so it is a record of these answers.
\<close>

record ColorManager =
  ListAvailableInputColorspaces :: "string list"
  GetDefaultInputColorSpace :: string
  ListAvailableDisplays :: "string list"
  GetDefaultDisplay :: string
  ListAvailableViews :: "string \<Rightarrow> string list"
  GetDefaultView :: "string \<Rightarrow> string"
  ListAvailableLooks :: "string list"

record ColorSpaceChooser =
  color_manager :: ColorManager
  input_combobox :: "QComboBox option"
  display_combobox :: QComboBox
  view_combobox :: QComboBox
  look_combobox :: QComboBox

text \<open>The \<^verbatim>\<open>foreach (const QString& s, list) box->addItem(s)\<close> loops.\<close>

definition addItems :: "QComboBox \<Rightarrow> string list \<Rightarrow> QComboBox" where
  "addItems cb xs = foldl addItem cb xs"

text \<open>\<^verbatim>\<open>ColorSpaceChooser::UpdateViews\<close>, the slot connected to the display combobox.\<close>

definition UpdateViews :: "ColorSpaceChooser \<Rightarrow> string \<Rightarrow> ColorSpaceChooser" where
  "UpdateViews c s =
     (let v = currentText (view_combobox c);
          cb1 = clear_cb (view_combobox c);
          views = ListAvailableViews (color_manager c) s;
          cb2 = addItems cb1 views;
          cb3 = (if v \<in> set views
                 then setCurrentText cb2 v
                 else setCurrentText cb2 (GetDefaultView (color_manager c) s))
      in c\<lparr>view_combobox := cb3\<rparr>)"

text \<open>
  The constructor. The signal connections are made after the boxes are filled, so no
  slot runs while it fills them; \<^verbatim>\<open>UpdateViews\<close> is called directly.
\<close>

definition ColorSpaceChooser_new :: "ColorManager \<Rightarrow> bool \<Rightarrow> ColorSpaceChooser" where
  "ColorSpaceChooser_new cm enable_input_field =
     (let inp = (if enable_input_field
                 then (let cb = addItems new_QComboBox (ListAvailableInputColorspaces cm)
                       in Some (if GetDefaultInputColorSpace cm \<noteq> []
                                then setCurrentText cb (GetDefaultInputColorSpace cm)
                                else cb))
                 else None);
          disp = setCurrentText (addItems new_QComboBox (ListAvailableDisplays cm))
                   (GetDefaultDisplay cm);
          c = \<lparr>color_manager = cm, input_combobox = inp,
               display_combobox = disp, view_combobox = new_QComboBox,
               look_combobox = new_QComboBox\<rparr>;
          c1 = UpdateViews c (currentText disp)
      in c1\<lparr>look_combobox := addItems new_QComboBox (ListAvailableLooks cm)\<rparr>)"

definition input :: "ColorSpaceChooser \<Rightarrow> string" where
  "input c = (case input_combobox c of Some cb \<Rightarrow> currentText cb | None \<Rightarrow> [])"

definition display :: "ColorSpaceChooser \<Rightarrow> string" where
  "display c = currentText (display_combobox c)"

definition view :: "ColorSpaceChooser \<Rightarrow> string" where
  "view c = currentText (view_combobox c)"

definition look :: "ColorSpaceChooser \<Rightarrow> string" where
  "look c = currentText (look_combobox c)"

text \<open>
  \<^verbatim>\<open>ColorSpaceChooser::set_input\<close> calls \<^verbatim>\<open>input_combobox_->setCurrentText(s)\<close> with no
  test of the pointer.
\<close>

definition set_input :: "ColorSpaceChooser \<Rightarrow> string \<Rightarrow> error + ColorSpaceChooser" where
  "set_input c s =
     (case input_combobox c of
        None \<Rightarrow> Inl NullPointerDereference
      | Some cb \<Rightarrow> Inr (c\<lparr>input_combobox := Some (setCurrentText cb s)\<rparr>))"

text \<open>\<^verbatim>\<open>ColorSpaceChooser::ComboBoxChanged\<close>: the signals it emits, in order.\<close>

datatype chooser_signal =
  ColorSpaceChanged string string string string
| DisplayColorSpaceChanged string string string

definition ComboBoxChanged :: "ColorSpaceChooser \<Rightarrow> chooser_signal list" where
  "ComboBoxChanged c =
     (case input_combobox c of
        Some cb \<Rightarrow> [ColorSpaceChanged (input c) (display c) (view c) (look c)]
      | None \<Rightarrow> [])
     @ [DisplayColorSpaceChanged (display c) (view c) (look c)]"

text \<open>A color manager and a chooser for the concrete checks.\<close>

definition cm0 :: ColorManager where
  "cm0 = \<lparr>ListAvailableInputColorspaces = [''Linear'', ''sRGB''],
          GetDefaultInputColorSpace = ''sRGB'',
          ListAvailableDisplays = [''sRGB'', ''Rec709''],
          GetDefaultDisplay = ''sRGB'',
          ListAvailableViews = (\<lambda>d. if d = ''sRGB'' then [''Film'', ''Raw'', ''Log'']
                                     else if d = ''Rec709'' then [''Video'', ''Raw''] else []),
          GetDefaultView = (\<lambda>d. if d = ''sRGB'' then ''Film''
                                 else if d = ''Rec709'' then ''Video'' else []),
          ListAvailableLooks = [''None'']\<rparr>"

text \<open>
  The same color manager, except that the default view it names for every display is
  one it does not list for the display.
\<close>

definition cm_unlisted :: ColorManager where
  "cm_unlisted = cm0\<lparr>GetDefaultView := (\<lambda>d. ''Auto'')\<rparr>"

subsection \<open>Node items\<close>

type_synonym ptr = nat

text \<open>
  \<^verbatim>\<open>Node\<close> is a class of the program that is not among the sources. A node item asks its
  node for \<^verbatim>\<open>inputs()\<close> and, for each input, \<^verbatim>\<open>IsInputConnectable(input)\<close>; the
  node is the record of these answers.
\<close>

record Node =
  inputs :: "string list"
  IsInputConnectable :: "string \<Rightarrow> bool"

text \<open>
  A \<^verbatim>\<open>NodeViewItemConnector\<close> child item (its class is not among the sources): what the
  node item sets (\<^verbatim>\<open>setVisible\<close>, \<^verbatim>\<open>setPos\<close>) and what it reads (\<^verbatim>\<open>boundingRect()\<close>).
\<close>

record connector =
  c_visible :: bool
  c_pos :: QPointF
  c_boundingRect :: QRectF

datatype GraphicsItemFlag = ItemIsMovable | ItemIsSelectable | ItemSendsGeometryChanges

text \<open>
  A \<^verbatim>\<open>NodeViewItem\<close>. The last four fields are the state of the \<^verbatim>\<open>QGraphicsRectItem\<close>
  base class that the item's own code reads and writes: \<^verbatim>\<open>rect()\<close>, \<^verbatim>\<open>pos()\<close>, the
  item flags, and the parent item when it is a \<^verbatim>\<open>NodeViewContext\<close> (what the
  \<^verbatim>\<open>dynamic_cast\<close> in \<^verbatim>\<open>UpdateContextRect\<close> finds).
\<close>

record NodeViewItem =
  node :: "Node option"
  expanded :: bool
  hide_titlebar :: bool
  highlighted_index :: int
  flow_dir :: FlowDirection
  prevent_removing :: bool
  label_as_output :: bool
  node_border_width :: int
  title_bar_rect :: QRectF
  node_inputs :: "string list"
  item_edges :: "ptr list"
  cached_node_pos :: QPointF
  input_connector :: connector
  output_connector :: connector
  rect :: QRectF
  pos :: QPointF
  flags :: "GraphicsItemFlag set"
  parent_context :: "ptr option"

text \<open>
  Calls that leave the item: a repaint request, \<^verbatim>\<open>edge->Adjust()\<close> on an edge,
  \<^verbatim>\<open>ctx->UpdateRect()\<close> on the parent context, and the four default mouse handlers of
  \<^verbatim>\<open>QGraphicsRectItem\<close>, each with the event as it is passed. A member function returns
  the new item and the list of these calls, in order.
\<close>

record QGraphicsSceneMouseEvent =
  modifiers :: "32 word"

datatype effect =
  Update
| Adjust ptr
| UpdateRect ptr
| Base_mousePressEvent QGraphicsSceneMouseEvent
| Base_mouseMoveEvent QGraphicsSceneMouseEvent
| Base_mouseReleaseEvent QGraphicsSceneMouseEvent
| Base_mouseDoubleClickEvent QGraphicsSceneMouseEvent

text \<open>
  The constructor; \<open>ic\<close> and \<open>oc\<close> are the two connectors as their own constructor
  makes them, \<open>parent\<close> the parent context if there is one. \<^verbatim>\<open>-widget_width/2\<close> is an
  integer division of the negated width.
\<close>

definition NodeViewItem_new :: "metrics \<Rightarrow> connector \<Rightarrow> connector \<Rightarrow> ptr option \<Rightarrow> NodeViewItem" where
  "NodeViewItem_new m ic oc parent =
     (let widget_width = DefaultItemWidth m;
          widget_height = DefaultItemHeight m;
          tb = \<lparr>r_left = of_int ((- widget_width) sdiv 2),
                r_top = of_int ((- widget_height) sdiv 2),
                r_width = of_int widget_width,
                r_height = of_int widget_height\<rparr>
      in \<lparr>node = None, expanded = False, hide_titlebar = False, highlighted_index = - 1,
          flow_dir = kLeftToRight, prevent_removing = False, label_as_output = False,
          node_border_width = DefaultItemBorder m, title_bar_rect = tb,
          node_inputs = [], item_edges = [], cached_node_pos = (0, 0),
          input_connector = ic, output_connector = oc,
          rect = tb, pos = (0, 0),
          flags = {ItemIsMovable, ItemIsSelectable, ItemSendsGeometryChanges},
          parent_context = parent\<rparr>)"

definition IsExpanded :: "NodeViewItem \<Rightarrow> bool" where
  "IsExpanded i = expanded i"

text \<open>\<^verbatim>\<open>NodeViewItem::AddEdge\<close> and \<^verbatim>\<open>NodeViewItem::RemoveEdge\<close> (\<^verbatim>\<open>QVector::removeOne\<close>).\<close>

definition AddEdge_item :: "NodeViewItem \<Rightarrow> ptr \<Rightarrow> NodeViewItem" where
  "AddEdge_item i edge = i\<lparr>item_edges := item_edges i @ [edge]\<rparr>"

definition RemoveEdge_item :: "NodeViewItem \<Rightarrow> ptr \<Rightarrow> NodeViewItem" where
  "RemoveEdge_item i edge = i\<lparr>item_edges := remove1 edge (item_edges i)\<rparr>"

text \<open>
  \<^verbatim>\<open>NodeViewItem::SetNode\<close>. The signal connections and \<^verbatim>\<open>node_->Retranslate()\<close> act
  on the node, not on the item, and are left out.
\<close>

definition SetNode :: "NodeViewItem \<Rightarrow> Node option \<Rightarrow> NodeViewItem \<times> effect list" where
  "SetNode i n =
     (let i1 = i\<lparr>node := n, node_inputs := []\<rparr>;
          i2 = (case n of
                  None \<Rightarrow> i1
                | Some nd \<Rightarrow>
                    (let ins = filter (IsInputConnectable nd) (inputs nd)
                     in i1\<lparr>node_inputs := ins,
                           input_connector := (input_connector i1)\<lparr>c_visible := (ins \<noteq> [])\<rparr>\<rparr>))
      in (i2, [Update]))"

definition ReadjustAllEdges :: "NodeViewItem \<Rightarrow> effect list" where
  "ReadjustAllEdges i = map Adjust (item_edges i)"

definition UpdateContextRect :: "NodeViewItem \<Rightarrow> effect list" where
  "UpdateContextRect i = (case parent_context i of Some ctx \<Rightarrow> [UpdateRect ctx] | None \<Rightarrow> [])"

definition setPos_connector :: "connector \<Rightarrow> qreal \<Rightarrow> qreal \<Rightarrow> connector" where
  "setPos_connector c x y = c\<lparr>c_pos := (x, y)\<rparr>"

definition UpdateConnectorPositions :: "NodeViewItem \<Rightarrow> NodeViewItem" where
  "UpdateConnectorPositions i =
     (let output_rect = c_boundingRect (output_connector i); r = rect i
      in (case flow_dir i of
            kLeftToRight \<Rightarrow>
              i\<lparr>input_connector := setPos_connector (input_connector i)
                     (r_left r - r_width output_rect) (snd (r_center r)),
                output_connector := setPos_connector (output_connector i)
                     (r_right r) (snd (r_center r))\<rparr>
          | kRightToLeft \<Rightarrow>
              i\<lparr>input_connector := setPos_connector (input_connector i)
                     (r_right r + r_width output_rect) (snd (r_center r)),
                output_connector := setPos_connector (output_connector i)
                     (r_left r) (snd (r_center r))\<rparr>
          | kTopToBottom \<Rightarrow>
              i\<lparr>input_connector := setPos_connector (input_connector i)
                     (fst (r_center r)) (r_top r - r_height output_rect),
                output_connector := setPos_connector (output_connector i)
                     (fst (r_center r)) (r_bottom r)\<rparr>
          | kBottomToTop \<Rightarrow>
              i\<lparr>input_connector := setPos_connector (input_connector i)
                     (fst (r_center r)) (r_bottom r + r_height output_rect),
                output_connector := setPos_connector (output_connector i)
                     (fst (r_center r)) (r_top r)\<rparr>))"

text \<open>\<^verbatim>\<open>NodeViewItem::SetExpanded\<close>.\<close>

definition SetExpanded :: "NodeViewItem \<Rightarrow> bool \<Rightarrow> bool \<Rightarrow> NodeViewItem \<times> effect list" where
  "SetExpanded i e hide =
     (if node_inputs i = [] \<or> (expanded i = e \<and> hide_titlebar i = hide)
      then (i, [])
      else
        (let i1 = i\<lparr>expanded := e, hide_titlebar := hide,
                    input_connector := (input_connector i)\<lparr>c_visible := \<not> e\<rparr>\<rparr>;
             i2 = (if expanded i1 \<and> node_inputs i1 \<noteq> []
                   then (let new_rect = title_bar_rect i1;
                             new_rect' =
                               (if hide_titlebar i1
                                then setHeight new_rect
                                       (r_height new_rect * of_nat (length (node_inputs i1)))
                                else setHeight new_rect
                                       (r_height new_rect * of_nat (length (node_inputs i1) + 1)))
                         in i1\<lparr>rect := new_rect'\<rparr>)
                   else i1\<lparr>rect := title_bar_rect i1\<rparr>);
             i3 = UpdateConnectorPositions i2
         in (i3, [Update] @ ReadjustAllEdges i3 @ UpdateContextRect i3)))"





text \<open>
  \<^verbatim>\<open>NodeViewItem::ToggleExpanded\<close> calls \<^verbatim>\<open>SetExpanded(!IsExpanded())\<close> with one
  argument; the value of the default argument for \<^verbatim>\<open>hide_titlebar\<close> stands in the class
  header, which is not among the sources, and is the parameter \<open>hide_default\<close>.
\<close>

definition ToggleExpanded :: "bool \<Rightarrow> NodeViewItem \<Rightarrow> NodeViewItem \<times> effect list" where
  "ToggleExpanded hide_default i = SetExpanded i (\<not> IsExpanded i) hide_default"





text \<open>
  The items a program can hold: the constructor's, and what \<^verbatim>\<open>SetNode\<close> and
  \<^verbatim>\<open>SetExpanded\<close> make of one. No other member function of the class writes
  \<^verbatim>\<open>expanded_\<close>, \<^verbatim>\<open>hide_titlebar_\<close>, \<^verbatim>\<open>node_inputs_\<close>, \<^verbatim>\<open>title_bar_rect_\<close> or the rect.
\<close>

inductive reachable :: "NodeViewItem \<Rightarrow> bool" where
  r_new: "reachable (NodeViewItem_new m ic oc parent)"
| r_SetNode: "reachable i \<Longrightarrow> reachable (fst (SetNode i n))"
| r_SetExpanded: "reachable i \<Longrightarrow> reachable (fst (SetExpanded i e hide))"

text \<open>Items and events for the concrete checks.\<close>

definition connector0 :: connector where
  "connector0 = \<lparr>c_visible = True, c_pos = (0, 0),
                 c_boundingRect = \<lparr>r_left = 0, r_top = - 6, r_width = 12, r_height = 12\<rparr>\<rparr>"

definition item0 :: NodeViewItem where
  "item0 = NodeViewItem_new metrics0 connector0 connector0 None"

definition node_a :: Node where
  "node_a = \<lparr>inputs = [''tex_in''], IsInputConnectable = (\<lambda>s. True)\<rparr>"

definition node_b :: Node where
  "node_b = \<lparr>inputs = [''base_in'', ''blend_in'', ''opacity_in''],
             IsInputConnectable = (\<lambda>s. s \<noteq> ''opacity_in'')\<rparr>"

text \<open>An item shown expanded for \<open>node_a\<close>, then given \<open>node_b\<close>.\<close>

definition item_renoded :: NodeViewItem where
  "item_renoded =
     fst (SetNode (fst (SetExpanded (fst (SetNode item0 (Some node_a))) True False)) (Some node_b))"


subsection \<open>The scene\<close>

text \<open>
  \<^verbatim>\<open>NodeInput\<close> is a class of the program that is not among the sources: an input of a
  node, compared with \<^verbatim>\<open>==\<close> and asked for its \<^verbatim>\<open>node()\<close>. It is the record of the
  node's address, the input's name and the element index, compared field by field.
\<close>

record NodeInput =
  ni_node :: ptr
  ni_input :: string
  ni_element :: int

text \<open>
  A \<^verbatim>\<open>NodeViewEdge\<close> (its class is not among the sources): the four constructor
  arguments, which \<^verbatim>\<open>output()\<close>, \<^verbatim>\<open>input()\<close>, \<^verbatim>\<open>from_item()\<close> and \<^verbatim>\<open>to_item()\<close> give
  back, and what \<^verbatim>\<open>SetFlowDirection\<close> and \<^verbatim>\<open>SetCurved\<close> store.
\<close>

record NodeViewEdge =
  edge_output :: ptr
  edge_input :: NodeInput
  from_item :: ptr
  to_item :: ptr
  edge_flow_dir :: FlowDirection
  edge_curved :: bool

text \<open>
  A \<^verbatim>\<open>QGraphicsItem*\<close> as the scene hands it out: the address of a node item, of an
  edge, or of any other graphics item (a connector, a context).
\<close>

datatype item_ref = NodeItemRef ptr | EdgeItemRef ptr | OtherItemRef ptr

text \<open>
  The toolkit's selection state of a graphics item. The toolkit documents
  \<^verbatim>\<open>setSelected\<close> so: only a visible, enabled item with the flag \<^verbatim>\<open>ItemIsSelectable\<close>
  can be selected; \<^verbatim>\<open>setSelected(true)\<close> on any other item does nothing, and
  \<^verbatim>\<open>setSelected(false)\<close> always deselects. An item is created without the flag; the
  constructor of \<^verbatim>\<open>NodeViewItem\<close> sets it.
\<close>

record QGraphicsItem =
  gi_selected :: bool
  gi_selectable :: bool
  gi_enabled :: bool
  gi_visible :: bool

text \<open>
  A \<^verbatim>\<open>NodeViewScene\<close>, with the objects its pointers lead to. \<open>scene_items\<close> is what
  \<^verbatim>\<open>QGraphicsScene::items()\<close> returns; \<open>item_map\<close> is the \<^verbatim>\<open>QHash\<close> \<^verbatim>\<open>item_map_\<close> as the
  list of its entries in iteration order; \<open>scene_edges\<close> is \<^verbatim>\<open>edges_\<close>; \<open>next_edge\<close> is
  the address the next \<^verbatim>\<open>new NodeViewEdge\<close> returns. (\<^verbatim>\<open>context_map_\<close> is used by none
  of the functions below and is left out.)
\<close>

record NodeViewScene =
  scene_items :: "item_ref list"
  graphics :: "item_ref \<Rightarrow> QGraphicsItem"
  node_item_objs :: "ptr \<Rightarrow> NodeViewItem"
  edge_objs :: "ptr \<Rightarrow> NodeViewEdge"
  item_map :: "(ptr \<times> ptr) list"
  scene_edges :: "ptr list"
  direction :: FlowDirection
  curved_edges :: bool
  next_edge :: ptr

definition can_be_selected :: "NodeViewScene \<Rightarrow> item_ref \<Rightarrow> bool" where
  "can_be_selected s r =
     (gi_selectable (graphics s r) \<and> gi_enabled (graphics s r) \<and> gi_visible (graphics s r))"

definition isSelected :: "NodeViewScene \<Rightarrow> item_ref \<Rightarrow> bool" where
  "isSelected s r = gi_selected (graphics s r)"

definition setSelected :: "item_ref \<Rightarrow> bool \<Rightarrow> NodeViewScene \<Rightarrow> NodeViewScene" where
  "setSelected r selected s =
     s\<lparr>graphics := (graphics s)
         (r := (graphics s r)\<lparr>gi_selected := (selected \<and> can_be_selected s r)\<rparr>)\<rparr>"

definition selectedItems :: "NodeViewScene \<Rightarrow> item_ref list" where
  "selectedItems s = filter (isSelected s) (scene_items s)"

text \<open>\<^verbatim>\<open>NodeViewScene::SelectAll\<close> and \<^verbatim>\<open>NodeViewScene::DeselectAll\<close>.\<close>

definition SelectAll :: "NodeViewScene \<Rightarrow> NodeViewScene" where
  "SelectAll s = foldl (\<lambda>s' i. setSelected i True s') s (scene_items s)"

definition DeselectAll :: "NodeViewScene \<Rightarrow> NodeViewScene" where
  "DeselectAll s = foldl (\<lambda>s' i. setSelected i False s') s (selectedItems s)"

text \<open>\<^verbatim>\<open>item_map_.value(n)\<close> is a null pointer when \<open>n\<close> is not a key.\<close>

definition NodeToUIObject :: "NodeViewScene \<Rightarrow> ptr \<Rightarrow> ptr option" where
  "NodeToUIObject s n = map_of (item_map s) n"

definition EdgeToUIObject :: "NodeViewScene \<Rightarrow> ptr \<Rightarrow> NodeInput \<Rightarrow> ptr option" where
  "EdgeToUIObject s output inp =
     find (\<lambda>edge. edge_output (edge_objs s edge) = output \<and> edge_input (edge_objs s edge) = inp)
       (scene_edges s)"

definition GetSelectedNodes :: "NodeViewScene \<Rightarrow> ptr list" where
  "GetSelectedNodes s =
     map fst (filter (\<lambda>kv. isSelected s (NodeItemRef (snd kv))) (item_map s))"

definition GetSelectedItems :: "NodeViewScene \<Rightarrow> ptr list" where
  "GetSelectedItems s =
     map snd (filter (\<lambda>kv. isSelected s (NodeItemRef (snd kv))) (item_map s))"

definition GetSelectedEdges :: "NodeViewScene \<Rightarrow> ptr list" where
  "GetSelectedEdges s = filter (\<lambda>e. isSelected s (EdgeItemRef e)) (scene_edges s)"

text \<open>
  \<^verbatim>\<open>NodeViewScene::AddEdgeInternal\<close>. \<open>from\<close> and \<open>to\<close> are what \<^verbatim>\<open>NodeToUIObject\<close>
  returned, null or not; the function calls \<^verbatim>\<open>from->AddEdge\<close> and \<^verbatim>\<open>to->AddEdge\<close>
  without a test.
\<close>

definition AddEdgeInternal ::
  "NodeViewScene \<Rightarrow> ptr \<Rightarrow> NodeInput \<Rightarrow> ptr option \<Rightarrow> ptr option \<Rightarrow> error + (ptr \<times> NodeViewScene)" where
  "AddEdgeInternal s output inp from to =
     (case from of
        None \<Rightarrow> Inl NullPointerDereference
      | Some f \<Rightarrow>
          (case to of
             None \<Rightarrow> Inl NullPointerDereference
           | Some t \<Rightarrow>
               (let edge_ui = next_edge s;
                    s1 = s\<lparr>next_edge := Suc edge_ui,
                           edge_objs := (edge_objs s)
                             (edge_ui := \<lparr>edge_output = output, edge_input = inp,
                                          from_item = f, to_item = t,
                                          edge_flow_dir = direction s,
                                          edge_curved = curved_edges s\<rparr>)\<rparr>;
                    s2 = s1\<lparr>node_item_objs := (node_item_objs s1)
                             (f := AddEdge_item (node_item_objs s1 f) edge_ui)\<rparr>;
                    s3 = s2\<lparr>node_item_objs := (node_item_objs s2)
                             (t := AddEdge_item (node_item_objs s2 t) edge_ui)\<rparr>;
                    s4 = s3\<lparr>scene_items := scene_items s3 @ [EdgeItemRef edge_ui]\<rparr>;
                    s5 = s4\<lparr>scene_edges := scene_edges s4 @ [edge_ui]\<rparr>
                in Inr (edge_ui, s5))))"

text \<open>\<^verbatim>\<open>NodeViewScene::AddEdge\<close>.\<close>

definition AddEdge :: "NodeViewScene \<Rightarrow> ptr \<Rightarrow> NodeInput \<Rightarrow> error + (ptr \<times> NodeViewScene)" where
  "AddEdge s output inp =
     (case EdgeToUIObject s output inp of
        Some edge \<Rightarrow> Inr (edge, s)
      | None \<Rightarrow>
          AddEdgeInternal s output inp (NodeToUIObject s output) (NodeToUIObject s (ni_node inp)))"

text \<open>
  \<^verbatim>\<open>NodeViewScene::RemoveEdge\<close>. \<^verbatim>\<open>delete edge\<close> runs the destructor of the graphics
  item, which takes it out of the scene's item list.
\<close>

definition RemoveEdge :: "NodeViewScene \<Rightarrow> ptr \<Rightarrow> NodeInput \<Rightarrow> NodeViewScene" where
  "RemoveEdge s output inp =
     (case EdgeToUIObject s output inp of
        None \<Rightarrow> s
      | Some edge \<Rightarrow>
          (let f = from_item (edge_objs s edge);
               s1 = s\<lparr>node_item_objs := (node_item_objs s)
                        (f := RemoveEdge_item (node_item_objs s f) edge)\<rparr>;
               t = to_item (edge_objs s1 edge);
               s2 = s1\<lparr>node_item_objs := (node_item_objs s1)
                        (t := RemoveEdge_item (node_item_objs s1 t) edge)\<rparr>;
               s3 = s2\<lparr>scene_edges := remove1 edge (scene_edges s2)\<rparr>
           in s3\<lparr>scene_items := removeAll (EdgeItemRef edge) (scene_items s3)\<rparr>))"

text \<open>
  The invariant of the edge lists. The edges of the scene are distinct objects, no two
  of them join the same output to the same input, each is in the scene's item list,
  and each item's own edge list holds an edge of the scene once for each end the edge
  has at the item, and holds nothing else. The last conjunct is about the allocator:
  the addresses in use are below the next one it gives out.
\<close>

definition joins :: "NodeViewScene \<Rightarrow> ptr \<Rightarrow> NodeInput \<Rightarrow> ptr \<Rightarrow> bool" where
  "joins s output inp e =
     (edge_output (edge_objs s e) = output \<and> edge_input (edge_objs s e) = inp)"

definition ends_at :: "NodeViewScene \<Rightarrow> ptr \<Rightarrow> ptr \<Rightarrow> nat" where
  "ends_at s e i =
     (if from_item (edge_objs s e) = i then 1 else 0) + (if to_item (edge_objs s e) = i then 1 else 0)"

definition edges_registered :: "NodeViewScene \<Rightarrow> bool" where
  "edges_registered s =
     (distinct (scene_edges s) \<and>
      (\<forall>e1 \<in> set (scene_edges s). \<forall>e2 \<in> set (scene_edges s).
          edge_output (edge_objs s e1) = edge_output (edge_objs s e2) \<and>
          edge_input (edge_objs s e1) = edge_input (edge_objs s e2) \<longrightarrow> e1 = e2) \<and>
      (\<forall>e \<in> set (scene_edges s). EdgeItemRef e \<in> set (scene_items s)) \<and>
      (\<forall>i e. count_list (item_edges (node_item_objs s i)) e =
                (if e \<in> set (scene_edges s) then ends_at s e i else 0)) \<and>
      (\<forall>e \<in> set (scene_edges s). e < next_edge s))"

text \<open>
  The scene's own lists lead to items of the scene: every item of \<^verbatim>\<open>item_map_\<close> and
  every edge of \<^verbatim>\<open>edges_\<close> is in the scene's item list.
\<close>

definition lists_in_scene :: "NodeViewScene \<Rightarrow> bool" where
  "lists_in_scene s =
     ((\<forall>kv \<in> set (item_map s). NodeItemRef (snd kv) \<in> set (scene_items s)) \<and>
      (\<forall>e \<in> set (scene_edges s). EdgeItemRef e \<in> set (scene_items s)))"

text \<open>
  A scene for the concrete checks: the nodes at addresses 1 and 2 have their items at
  10 and 20, each item has its two connectors in the scene (11, 12 and 21, 22), and
  there is no edge yet. The node items can be selected; the connectors are plain
  graphics items without the selectable flag.
\<close>

definition scene0 :: NodeViewScene where
  "scene0 =
     \<lparr>scene_items = [NodeItemRef 10, OtherItemRef 11, OtherItemRef 12,
                     NodeItemRef 20, OtherItemRef 21, OtherItemRef 22],
      graphics = (\<lambda>r. case r of
                    NodeItemRef p \<Rightarrow> \<lparr>gi_selected = False, gi_selectable = True,
                                      gi_enabled = True, gi_visible = True\<rparr>
                  | EdgeItemRef p \<Rightarrow> \<lparr>gi_selected = False, gi_selectable = True,
                                      gi_enabled = True, gi_visible = True\<rparr>
                  | OtherItemRef p \<Rightarrow> \<lparr>gi_selected = False, gi_selectable = False,
                                       gi_enabled = True, gi_visible = True\<rparr>),
      node_item_objs = (\<lambda>p. item0),
      edge_objs = (\<lambda>p. \<lparr>edge_output = 0,
                         edge_input = \<lparr>ni_node = 0, ni_input = [], ni_element = 0\<rparr>,
                         from_item = 0, to_item = 0,
                         edge_flow_dir = kLeftToRight, edge_curved = True\<rparr>),
      item_map = [(1, 10), (2, 20)],
      scene_edges = [],
      direction = kLeftToRight,
      curved_edges = True,
      next_edge = 100\<rparr>"

definition input0 :: NodeInput where
  "input0 = \<lparr>ni_node = 2, ni_input = ''tex_in'', ni_element = - 1\<rparr>"

subsection \<open>The layout weight of a node\<close>

text \<open>
  \<^verbatim>\<open>NodeViewScene::DetermineWeight\<close> asks the node graph two things, both answered by
  the class \<^verbatim>\<open>Node\<close>, which is not among the sources: the immediate dependencies of a
  node and the number of routes from one node to another. The graph is the record of
  the answers, nodes being addresses.
\<close>

record node_graph =
  GetImmediateDependencies :: "ptr \<Rightarrow> ptr list"
  GetNumberOfRoutesTo :: "ptr \<Rightarrow> ptr \<Rightarrow> int"

text \<open>
  The \<^verbatim>\<open>foreach\<close> loop of \<^verbatim>\<open>DetermineWeight\<close>: \<open>rec\<close> is the recursive call, \<open>single i\<close>
  the test \<^verbatim>\<open>i->GetNumberOfRoutesTo(n) == 1\<close>, \<open>weight\<close> the accumulator.
\<close>

fun weight_loop :: "(ptr \<Rightarrow> int option) \<Rightarrow> (ptr \<Rightarrow> bool) \<Rightarrow> ptr list \<Rightarrow> int \<Rightarrow> int option" where
  "weight_loop rec single [] weight = Some weight"
| "weight_loop rec single (i # ins) weight =
     (if single i
      then (case rec i of
              None \<Rightarrow> None
            | Some w \<Rightarrow> weight_loop rec single ins (weight + w))
      else weight_loop rec single ins weight)"

text \<open>
  \<^verbatim>\<open>NodeViewScene::DetermineWeight\<close>. The C++ function recurses along the
  dependencies and does not return on a graph with a dependency cycle; the first
  argument bounds the depth of the recursion, and \<open>None\<close> says the bound was reached.
\<close>

fun DetermineWeight :: "node_graph \<Rightarrow> nat \<Rightarrow> ptr \<Rightarrow> int option" where
  "DetermineWeight g 0 n = None"
| "DetermineWeight g (Suc depth) n =
     map_option (max 1)
       (weight_loop (DetermineWeight g depth) (\<lambda>i. GetNumberOfRoutesTo g i n = 1)
          (GetImmediateDependencies g n) 0)"

text \<open>
  A reference for the weight that names neither the scene nor the toolkit: unfold the
  dependencies that reach the node by exactly one route into a tree, and count the
  leaves of the tree.
\<close>

datatype dtree = DNode "dtree list"

fun leaves :: "dtree \<Rightarrow> int" where
  "leaves (DNode ts) = (if ts = [] then 1 else sum_list (map leaves ts))"

fun single_route_tree :: "node_graph \<Rightarrow> nat \<Rightarrow> ptr \<Rightarrow> dtree option" where
  "single_route_tree g 0 n = None"
| "single_route_tree g (Suc depth) n =
     map_option DNode
       (those (map (single_route_tree g depth)
                 (filter (\<lambda>i. GetNumberOfRoutesTo g i n = 1) (GetImmediateDependencies g n))))"

definition DetermineWeight_reference :: "node_graph \<Rightarrow> nat \<Rightarrow> ptr \<Rightarrow> int option" where
  "DetermineWeight_reference g depth n = map_option leaves (single_route_tree g depth n)"

text \<open>
  A graph for the concrete checks: node 1 depends on 2, 3 and 5, node 2 on 4, and node
  5 reaches node 1 by two routes.
\<close>

definition graph0 :: node_graph where
  "graph0 = \<lparr>GetImmediateDependencies =
                (\<lambda>n. if n = 1 then [2, 3, 5] else if n = 2 then [4] else []),
              GetNumberOfRoutesTo = (\<lambda>i n. if i = 5 then 2 else 1)\<rparr>"

section \<open>Theorems\<close>

subsection \<open>Coordinate conversion\<close>

lemma metrics0_paddings:
  "DefaultItemHorizontalPadding metrics0 kLeftToRight = 192"
  "DefaultItemVerticalPadding metrics0 kLeftToRight = 36"
  "DefaultItemHorizontalPadding metrics0 kBottomToTop = 160"
  "DefaultItemVerticalPadding metrics0 kBottomToTop = 48"
  by (simp_all add: DefaultItemHorizontalPadding_def DefaultItemVerticalPadding_def
      DefaultItemWidth_def DefaultItemHeight_def DefaultTextPadding_def metrics0_def
      signed_divide_int_def)


text \<open>
  C2. With nonzero horizontal and vertical paddings for the direction, the two
  conversions are inverse to each other, in both orders, for each of the four
  directions and every point.
\<close>

theorem screen_node_roundtrip:
  assumes "DefaultItemHorizontalPadding m d \<noteq> 0"
    and "DefaultItemVerticalPadding m d \<noteq> 0"
  shows "ScreenToNodePoint m (NodeToScreenPoint m p d) d = p \<and>
         NodeToScreenPoint m (ScreenToNodePoint m p d) d = p"
  using assms
  by (cases d; cases p)
     (simp_all add: NodeToScreenPoint_def ScreenToNodePoint_def setX_def setY_def Let_def)

theorem screen_node_roundtrip_witness:
  "DefaultItemHorizontalPadding metrics0 kBottomToTop \<noteq> 0 \<and>
   DefaultItemVerticalPadding metrics0 kBottomToTop \<noteq> 0 \<and>
   NodeToScreenPoint metrics0 (3, 5) kBottomToTop = (800, - 144) \<and>
   ScreenToNodePoint metrics0 (NodeToScreenPoint metrics0 (3, 5) kBottomToTop) kBottomToTop = (3, 5) \<and>
   NodeToScreenPoint metrics0 (ScreenToNodePoint metrics0 (3, 5) kBottomToTop) kBottomToTop = (3, 5)"
proof -
  have h: "DefaultItemHorizontalPadding metrics0 kBottomToTop \<noteq> 0"
    by (simp add: metrics0_paddings)
  have v: "DefaultItemVerticalPadding metrics0 kBottomToTop \<noteq> 0"
    by (simp add: metrics0_paddings)
  have n: "NodeToScreenPoint metrics0 (3, 5) kBottomToTop = (800, - 144)"
    by (simp add: NodeToScreenPoint_def setX_def setY_def metrics0_paddings)
  show ?thesis
    using h v n screen_node_roundtrip [OF h v, of "(3, 5)"] by simp
qed

subsection \<open>The color-space chooser\<close>

lemma index_of_bounds: "- 1 \<le> index_of xs x \<and> index_of xs x < int (length xs)"
  by (induction xs) (auto simp: Let_def)

lemma index_of_absent: "x \<notin> set xs \<Longrightarrow> index_of xs x = - 1"
  by (induction xs) (auto simp: Let_def)

lemma index_of_present:
  "x \<in> set xs \<Longrightarrow> 0 \<le> index_of xs x \<and> xs ! nat (index_of xs x) = x"
proof (induction xs)
  case Nil
  then show ?case by simp
next
  case (Cons y ys)
  show ?case
  proof (cases "y = x")
    case True
    then show ?thesis by simp
  next
    case False
    with Cons.prems have "x \<in> set ys" by simp
    from Cons.IH [OF this] have ih: "0 \<le> index_of ys x" "ys ! nat (index_of ys x) = x"
      by simp_all
    from ih False show ?thesis
      by (simp add: Let_def nat_add_distrib)
  qed
qed

lemma addItems_items: "cb_items (addItems cb xs) = cb_items cb @ xs"
  unfolding addItems_def
  by (induction xs arbitrary: cb) (simp_all add: addItem_def)

lemma addItems_index:
  "cb_index (addItems cb xs) = (if cb_items cb = [] \<and> xs \<noteq> [] then 0 else cb_index cb)"
  unfolding addItems_def
  by (induction xs arbitrary: cb) (simp_all add: addItem_def)

lemma setCurrentText_items: "cb_items (setCurrentText cb s) = cb_items cb"
  by (simp add: setCurrentText_def Let_def)

lemma setCurrentText_present:
  "s \<in> set (cb_items cb) \<Longrightarrow> currentText (setCurrentText cb s) = s"
  using index_of_present [of s "cb_items cb"] index_of_bounds [of "cb_items cb" s]
  by (simp add: setCurrentText_def findText_def currentText_def Let_def)

lemma setCurrentText_absent:
  "s \<notin> set (cb_items cb) \<Longrightarrow> setCurrentText cb s = cb"
  by (simp add: setCurrentText_def findText_def index_of_absent)

lemma currentText_refilled:
  "currentText (addItems (clear_cb cb) xs) = (if xs = [] then [] else hd xs)"
  by (cases xs) (simp_all add: currentText_def addItems_items addItems_index clear_cb_def)

text \<open>
  C4 (as amended). After \<^verbatim>\<open>UpdateViews\<close> has run with display \<open>s\<close>, the view combobox
  lists exactly the views the color manager gives for \<open>s\<close>, in that order. If the view
  that was current before is one of them, it is current again. Otherwise the display's
  default view is current if it is one of the listed views, and if it is not, the first
  listed view is current, or no view when none is listed.
\<close>

theorem UpdateViews_repopulates:
  fixes c :: ColorSpaceChooser and s :: string
  defines "views \<equiv> ListAvailableViews (color_manager c) s"
    and "dflt \<equiv> GetDefaultView (color_manager c) s"
  shows "cb_items (view_combobox (UpdateViews c s)) = views \<and>
         (view c \<in> set views \<longrightarrow> view (UpdateViews c s) = view c) \<and>
         (view c \<notin> set views \<longrightarrow> dflt \<in> set views \<longrightarrow> view (UpdateViews c s) = dflt) \<and>
         (view c \<notin> set views \<longrightarrow> dflt \<notin> set views \<longrightarrow>
            view (UpdateViews c s) = (if views = [] then [] else hd views))"
proof -
  let ?cb2 = "addItems (clear_cb (view_combobox c)) views"
  have items2: "cb_items ?cb2 = views"
    by (simp add: addItems_items clear_cb_def)
  have listed: "cb_items (view_combobox (UpdateViews c s)) = views"
    by (simp add: UpdateViews_def Let_def views_def [symmetric] setCurrentText_items items2)
  have kept: "view (UpdateViews c s) = view c" if "view c \<in> set views"
    using that setCurrentText_present [of "view c" ?cb2]
    by (simp add: UpdateViews_def Let_def views_def [symmetric] view_def items2)
  have reset: "view (UpdateViews c s) = dflt" if "view c \<notin> set views" "dflt \<in> set views"
    using that setCurrentText_present [of dflt ?cb2]
    by (simp add: UpdateViews_def Let_def views_def [symmetric] dflt_def [symmetric]
        view_def items2)
  have first: "view (UpdateViews c s) = (if views = [] then [] else hd views)"
    if "view c \<notin> set views" "dflt \<notin> set views"
    using that setCurrentText_absent [of dflt ?cb2] currentText_refilled [of "view_combobox c" views]
    by (simp add: UpdateViews_def Let_def views_def [symmetric] dflt_def [symmetric]
        view_def items2)
  from listed kept reset first show ?thesis by blast
qed

lemma chooser0_view: "view (ColorSpaceChooser_new cm0 True) = ''Film''"
  by (simp add: ColorSpaceChooser_new_def cm0_def UpdateViews_def view_def addItems_def
      addItem_def new_QComboBox_def clear_cb_def setCurrentText_def findText_def
      currentText_def Let_def)

theorem UpdateViews_repopulates_witness:
  "view (ColorSpaceChooser_new cm0 True) = ''Film'' \<and>
   ''Film'' \<notin> set (ListAvailableViews cm0 ''Rec709'') \<and>
   GetDefaultView cm0 ''Rec709'' \<in> set (ListAvailableViews cm0 ''Rec709'') \<and>
   cb_items (view_combobox (UpdateViews (ColorSpaceChooser_new cm0 True) ''Rec709''))
     = [''Video'', ''Raw''] \<and>
   view (UpdateViews (ColorSpaceChooser_new cm0 True) ''Rec709'') = ''Video'' \<and>
   view (UpdateViews (UpdateViews (ColorSpaceChooser_new cm0 True) ''Rec709'') ''Rec709'') = ''Video''"
proof -
  let ?c = "ColorSpaceChooser_new cm0 True"
  have cm: "color_manager ?c = cm0"
    by (simp add: ColorSpaceChooser_new_def UpdateViews_def Let_def)
  have views: "ListAvailableViews cm0 ''Rec709'' = [''Video'', ''Raw'']"
    and dflt: "GetDefaultView cm0 ''Rec709'' = ''Video''"
    by (simp_all add: cm0_def)
  have cm': "color_manager (UpdateViews ?c ''Rec709'') = cm0"
    using cm by (simp add: UpdateViews_def Let_def)
  from UpdateViews_repopulates [of ?c "''Rec709''"]
  have step1: "cb_items (view_combobox (UpdateViews ?c ''Rec709'')) = [''Video'', ''Raw'']"
    "view (UpdateViews ?c ''Rec709'') = ''Video''"
    by (simp_all add: cm views dflt chooser0_view)
  from UpdateViews_repopulates [of "UpdateViews ?c ''Rec709''" "''Rec709''"]
  have step2: "view (UpdateViews (UpdateViews ?c ''Rec709'') ''Rec709'') = ''Video''"
    by (simp add: cm' views step1)
  from step1 step2 show ?thesis
    by (simp add: chooser0_view views dflt)
qed

text \<open>
  C4 as stated fails: the color manager \<open>cm_unlisted\<close> names the default view \<open>Auto\<close>
  for the display \<open>Rec709\<close> and lists \<open>Video\<close> and \<open>Raw\<close> for it. The view \<open>Film\<close>,
  current before, is not listed, and after \<^verbatim>\<open>UpdateViews\<close> the current view is
  \<open>Video\<close>, not the default: \<^verbatim>\<open>setCurrentText\<close> finds no item \<open>Auto\<close> to select.
\<close>

theorem UpdateViews_unlisted_default:
  "view (ColorSpaceChooser_new cm_unlisted True) = ''Film'' \<and>
   ''Film'' \<notin> set (ListAvailableViews cm_unlisted ''Rec709'') \<and>
   GetDefaultView cm_unlisted ''Rec709'' = ''Auto'' \<and>
   view (UpdateViews (ColorSpaceChooser_new cm_unlisted True) ''Rec709'') = ''Video'' \<and>
   view (UpdateViews (ColorSpaceChooser_new cm_unlisted True) ''Rec709'')
     \<noteq> GetDefaultView cm_unlisted ''Rec709''"
  by (simp add: ColorSpaceChooser_new_def cm_unlisted_def cm0_def UpdateViews_def view_def
      addItems_def addItem_def new_QComboBox_def clear_cb_def setCurrentText_def findText_def
      currentText_def Let_def)

text \<open>
  C6. For a chooser constructed with \<^verbatim>\<open>enable_input_field = false\<close>, \<^verbatim>\<open>input()\<close> returns
  the empty string, as the claim says; \<^verbatim>\<open>set_input\<close>, against the claim, dereferences
  the null input combobox, whatever the color manager and the argument are.
\<close>

theorem set_input_without_input_field:
  "input (ColorSpaceChooser_new cm False) = [] \<and>
   set_input (ColorSpaceChooser_new cm False) s = Inl NullPointerDereference"
proof -
  have "input_combobox (ColorSpaceChooser_new cm False) = None"
    by (simp add: ColorSpaceChooser_new_def UpdateViews_def Let_def)
  then show ?thesis
    by (simp add: input_def set_input_def)
qed

subsection \<open>Expanding and collapsing a node item\<close>

lemma rect_UpdateConnectorPositions [simp]:
  "rect (UpdateConnectorPositions i) = rect i"
  by (cases "flow_dir i") (simp_all add: UpdateConnectorPositions_def Let_def)

lemma fields_UpdateConnectorPositions [simp]:
  "expanded (UpdateConnectorPositions i) = expanded i"
  "hide_titlebar (UpdateConnectorPositions i) = hide_titlebar i"
  "node_inputs (UpdateConnectorPositions i) = node_inputs i"
  "title_bar_rect (UpdateConnectorPositions i) = title_bar_rect i"
  by (cases "flow_dir i"; simp add: UpdateConnectorPositions_def Let_def)+

lemma SetExpanded_returns_early:
  "node_inputs i = [] \<or> (expanded i = e \<and> hide_titlebar i = hide) \<Longrightarrow>
   SetExpanded i e hide = (i, [])"
  by (simp add: SetExpanded_def)

lemma SetExpanded_rect:
  assumes "node_inputs i \<noteq> []" and "\<not> (expanded i = e \<and> hide_titlebar i = hide)"
  shows "rect (fst (SetExpanded i e hide)) =
           (if e then setHeight (title_bar_rect i)
                        (r_height (title_bar_rect i) *
                           of_nat (if hide then length (node_inputs i) else length (node_inputs i) + 1))
            else title_bar_rect i)"
proof -
  from assms have c: "\<not> (node_inputs i = [] \<or> (expanded i = e \<and> hide_titlebar i = hide))"
    by blast
  show ?thesis
    unfolding SetExpanded_def if_not_P [OF c]
    using assms(1) by (simp add: Let_def)
qed

lemma SetExpanded_flags:
  assumes "node_inputs i \<noteq> []" and "\<not> (expanded i = e \<and> hide_titlebar i = hide)"
  shows "expanded (fst (SetExpanded i e hide)) = e"
    and "hide_titlebar (fst (SetExpanded i e hide)) = hide"
proof -
  from assms have c: "\<not> (node_inputs i = [] \<or> (expanded i = e \<and> hide_titlebar i = hide))"
    by blast
  show "expanded (fst (SetExpanded i e hide)) = e"
    unfolding SetExpanded_def if_not_P [OF c] by (simp add: Let_def)
  show "hide_titlebar (fst (SetExpanded i e hide)) = hide"
    unfolding SetExpanded_def if_not_P [OF c] by (simp add: Let_def)
qed

lemma SetExpanded_title_bar_rect:
  "title_bar_rect (fst (SetExpanded i e hide)) = title_bar_rect i"
  by (simp add: SetExpanded_def Let_def)

lemma reachable_collapsed_rect:
  "reachable i \<Longrightarrow> \<not> expanded i \<Longrightarrow> rect i = title_bar_rect i"
proof (induction rule: reachable.induct)
  case (r_new m ic oc parent)
  show ?case by (simp add: NodeViewItem_new_def Let_def)
next
  case (r_SetNode i n)
  then show ?case
    by (cases n) (simp_all add: SetNode_def Let_def)
next
  case (r_SetExpanded i e hide)
  show ?case
  proof (cases "node_inputs i = [] \<or> (expanded i = e \<and> hide_titlebar i = hide)")
    case True
    with r_SetExpanded show ?thesis
      by (simp add: SetExpanded_returns_early)
  next
    case False
    then have ne: "node_inputs i \<noteq> []" and ch: "\<not> (expanded i = e \<and> hide_titlebar i = hide)"
      by simp_all
    from r_SetExpanded.prems SetExpanded_flags(1) [OF ne ch] have "\<not> e" by simp
    with SetExpanded_rect [OF ne ch] show ?thesis
      by (simp add: SetExpanded_title_bar_rect)
  qed
qed

text \<open>
  C7 (as amended). \<^verbatim>\<open>SetExpanded(e, hide_titlebar)\<close> changes nothing and makes no call
  when the item has no connectable input, and also when the item's two flags already
  are \<open>e\<close> and \<open>hide_titlebar\<close>. On an item with \<open>n \<ge> 1\<close> connectable inputs whose
  flags differ from the arguments, expanding sets the rect to the title-bar rect with
  its height multiplied by \<open>n + 1\<close> (title bar shown) or by \<open>n\<close> (title bar hidden),
  and collapsing sets it to the title-bar rect. On every item with \<open>n \<ge> 1\<close> that the
  constructor, \<^verbatim>\<open>SetNode\<close> and \<^verbatim>\<open>SetExpanded\<close> can produce, the rect after a collapsing
  call is the title-bar rect, whatever the flags were.
\<close>

theorem SetExpanded_rect_height:
  fixes i :: NodeViewItem
  defines "n \<equiv> length (node_inputs i)" and "tb \<equiv> title_bar_rect i"
  shows "(node_inputs i = [] \<longrightarrow> SetExpanded i e hide = (i, [])) \<and>
         (expanded i = e \<and> hide_titlebar i = hide \<longrightarrow> SetExpanded i e hide = (i, [])) \<and>
         (node_inputs i \<noteq> [] \<and> \<not> (expanded i = e \<and> hide_titlebar i = hide) \<longrightarrow>
            rect (fst (SetExpanded i e hide)) =
              (if e then setHeight tb (r_height tb * of_nat (if hide then n else n + 1))
               else tb)) \<and>
         (reachable i \<and> node_inputs i \<noteq> [] \<and> \<not> e \<longrightarrow>
            rect (fst (SetExpanded i e hide)) = tb)"
proof -
  have collapse: "rect (fst (SetExpanded i e hide)) = tb"
    if r: "reachable i" and ne: "node_inputs i \<noteq> []" and "\<not> e"
  proof (cases "expanded i = e \<and> hide_titlebar i = hide")
    case True
    then have "SetExpanded i e hide = (i, [])"
      by (simp add: SetExpanded_returns_early)
    moreover from True \<open>\<not> e\<close> have "\<not> expanded i" by simp
    ultimately show ?thesis
      using reachable_collapsed_rect [OF r] by (simp add: tb_def)
  next
    case False
    from SetExpanded_rect [OF ne False] \<open>\<not> e\<close> show ?thesis
      by (simp add: tb_def)
  qed
  have early1: "node_inputs i = [] \<longrightarrow> SetExpanded i e hide = (i, [])"
    by (simp add: SetExpanded_returns_early)
  have early2: "expanded i = e \<and> hide_titlebar i = hide \<longrightarrow> SetExpanded i e hide = (i, [])"
    by (simp add: SetExpanded_returns_early)
  have change: "node_inputs i \<noteq> [] \<and> \<not> (expanded i = e \<and> hide_titlebar i = hide) \<longrightarrow>
     rect (fst (SetExpanded i e hide)) =
       (if e then setHeight tb (r_height tb * of_nat (if hide then n else n + 1)) else tb)"
    using SetExpanded_rect [of i e hide] unfolding n_def tb_def by blast
  from early1 early2 change collapse show ?thesis by blast
qed

lemma item0_fields:
  "node_inputs item0 = []" "expanded item0 = False" "hide_titlebar item0 = False"
  "title_bar_rect item0 = \<lparr>r_left = - 64, r_top = - 12, r_width = 128, r_height = 24\<rparr>"
  "rect item0 = title_bar_rect item0"
  by (simp_all add: item0_def NodeViewItem_new_def Let_def metrics0_def DefaultItemWidth_def
      DefaultItemHeight_def DefaultTextPadding_def signed_divide_int_def)

lemma SetNode_fields:
  "node_inputs (fst (SetNode i (Some nd))) = filter (IsInputConnectable nd) (inputs nd)"
  "expanded (fst (SetNode i n)) = expanded i"
  "hide_titlebar (fst (SetNode i n)) = hide_titlebar i"
  "title_bar_rect (fst (SetNode i n)) = title_bar_rect i"
  "rect (fst (SetNode i n)) = rect i"
  by (cases n; simp add: SetNode_def Let_def)+

lemma item_a_expanded_fields:
  "expanded (fst (SetExpanded (fst (SetNode item0 (Some node_a))) True False)) = True"
  "hide_titlebar (fst (SetExpanded (fst (SetNode item0 (Some node_a))) True False)) = False"
  "r_height (rect (fst (SetExpanded (fst (SetNode item0 (Some node_a))) True False))) = 48"
  "title_bar_rect (fst (SetExpanded (fst (SetNode item0 (Some node_a))) True False))
     = title_bar_rect item0"
proof -
  let ?i = "fst (SetNode item0 (Some node_a))"
  have ne: "node_inputs ?i \<noteq> []"
    by (simp add: SetNode_fields node_a_def)
  have ch: "\<not> (expanded ?i = True \<and> hide_titlebar ?i = False)"
    by (simp add: SetNode_fields item0_fields)
  show "expanded (fst (SetExpanded ?i True False)) = True"
    using SetExpanded_flags(1) [OF ne ch] .
  show "hide_titlebar (fst (SetExpanded ?i True False)) = False"
    using SetExpanded_flags(2) [OF ne ch] .
  show "r_height (rect (fst (SetExpanded ?i True False))) = 48"
    using SetExpanded_rect [OF ne ch]
    by (simp add: SetNode_fields item0_fields node_a_def setHeight_def)
  show "title_bar_rect (fst (SetExpanded ?i True False)) = title_bar_rect item0"
    by (simp add: SetExpanded_title_bar_rect SetNode_fields)
qed

text \<open>
  C7 as stated fails. The item \<open>item_renoded\<close> was expanded while it showed a node with
  one connectable input and was then given a node with two. It has \<open>n = 2\<close> and a title
  bar of height 24, and \<^verbatim>\<open>SetExpanded(true, false)\<close> leaves its rect 48 high, not
  \<open>(2 + 1) * 24\<close>: the flags already are what the call asks for.
\<close>

theorem SetExpanded_repeat_keeps_height:
  "length (node_inputs item_renoded) = 2 \<and>
   r_height (title_bar_rect item_renoded) = 24 \<and>
   r_height (rect (fst (SetExpanded item_renoded True False))) = 48 \<and>
   r_height (rect (fst (SetExpanded item_renoded True False)))
     \<noteq> (2 + 1) * r_height (title_bar_rect item_renoded)"
proof -
  have n: "node_inputs item_renoded = [''base_in'', ''blend_in'']"
    by (simp add: item_renoded_def SetNode_fields node_b_def)
  have fl: "expanded item_renoded = True \<and> hide_titlebar item_renoded = False"
    by (simp add: item_renoded_def SetNode_fields item_a_expanded_fields)
  have tb: "r_height (title_bar_rect item_renoded) = 24"
    by (simp add: item_renoded_def SetNode_fields item_a_expanded_fields item0_fields)
  have r: "r_height (rect item_renoded) = 48"
    by (simp add: item_renoded_def SetNode_fields item_a_expanded_fields)
  from fl have "SetExpanded item_renoded True False = (item_renoded, [])"
    by (simp add: SetExpanded_returns_early)
  with n tb r show ?thesis by simp
qed

theorem SetExpanded_rect_height_witness:
  "node_inputs item0 = [] \<and> SetExpanded item0 True False = (item0, []) \<and>
   SetExpanded item_renoded True False = (item_renoded, []) \<and>
   reachable (fst (SetNode item0 (Some node_b))) \<and>
   length (node_inputs (fst (SetNode item0 (Some node_b)))) = 2 \<and>
   r_height (rect (fst (SetExpanded (fst (SetNode item0 (Some node_b))) True False))) = 72 \<and>
   r_height (rect (fst (SetExpanded (fst (SetNode item0 (Some node_b))) True True))) = 48 \<and>
   rect (fst (SetExpanded (fst (SetNode item0 (Some node_b))) False True)) = title_bar_rect item0"
proof -
  let ?i = "fst (SetNode item0 (Some node_b))"
  have n: "node_inputs ?i = [''base_in'', ''blend_in'']"
    by (simp add: SetNode_fields node_b_def)
  have fl: "expanded ?i = False" "hide_titlebar ?i = False"
    by (simp_all add: SetNode_fields item0_fields)
  have tb: "title_bar_rect ?i = title_bar_rect item0"
    by (simp add: SetNode_fields)
  have r: "reachable ?i"
    unfolding item0_def by (intro reachable.intros)
  have fl': "expanded item_renoded = True \<and> hide_titlebar item_renoded = False"
    by (simp add: item_renoded_def SetNode_fields item_a_expanded_fields)
  from SetExpanded_rect_height [of item0 True False]
  have a: "SetExpanded item0 True False = (item0, [])"
    by (simp add: item0_fields)
  from SetExpanded_rect_height [of item_renoded True False] fl'
  have b: "SetExpanded item_renoded True False = (item_renoded, [])"
    by simp
  from SetExpanded_rect_height [of ?i True False]
  have c: "r_height (rect (fst (SetExpanded ?i True False))) = 72"
    by (simp add: n fl tb item0_fields setHeight_def)
  from SetExpanded_rect_height [of ?i True True]
  have d: "r_height (rect (fst (SetExpanded ?i True True))) = 48"
    by (simp add: n fl tb item0_fields setHeight_def)
  from SetExpanded_rect_height [of ?i False True] r
  have e: "rect (fst (SetExpanded ?i False True)) = title_bar_rect item0"
    by (simp add: n tb)
  from a b c d e r n show ?thesis
    by (simp add: item0_fields)
qed

subsection \<open>Mouse events on a node item\<close>
















subsection \<open>Selecting and deselecting all items\<close>

lemma setSelected_frame [simp]:
  "scene_items (setSelected r b s) = scene_items s"
  "item_map (setSelected r b s) = item_map s"
  "scene_edges (setSelected r b s) = scene_edges s"
  "can_be_selected (setSelected r b s) q = can_be_selected s q"
  by (simp_all add: setSelected_def can_be_selected_def)

lemma isSelected_setSelected:
  "isSelected (setSelected r b s) q =
     (if q = r then b \<and> can_be_selected s r else isSelected s q)"
  by (simp add: setSelected_def isSelected_def)

lemma foldl_setSelected_frame [simp]:
  "scene_items (foldl (\<lambda>s' i. setSelected i b s') s rs) = scene_items s"
  "item_map (foldl (\<lambda>s' i. setSelected i b s') s rs) = item_map s"
  "scene_edges (foldl (\<lambda>s' i. setSelected i b s') s rs) = scene_edges s"
  "can_be_selected (foldl (\<lambda>s' i. setSelected i b s') s rs) q = can_be_selected s q"
  by (induction rs arbitrary: s; simp)+

lemma isSelected_foldl_setSelected:
  "isSelected (foldl (\<lambda>s' i. setSelected i b s') s rs) q =
     (if q \<in> set rs then b \<and> can_be_selected s q else isSelected s q)"
proof (induction rs arbitrary: s)
  case Nil
  show ?case by simp
next
  case (Cons r rs)
  show ?case
    by (simp add: Cons.IH isSelected_setSelected)
qed

lemma isSelected_DeselectAll:
  "isSelected (DeselectAll s) q = (isSelected s q \<and> q \<notin> set (scene_items s))"
  by (auto simp add: DeselectAll_def selectedItems_def isSelected_foldl_setSelected)

lemma isSelected_SelectAll:
  "isSelected (SelectAll s) q =
     (if q \<in> set (scene_items s) then can_be_selected s q else isSelected s q)"
  by (simp add: SelectAll_def isSelected_foldl_setSelected)

lemma DeselectAll_frame [simp]:
  "item_map (DeselectAll s) = item_map s" "scene_edges (DeselectAll s) = scene_edges s"
  "scene_items (DeselectAll s) = scene_items s"
  by (simp_all add: DeselectAll_def)

lemma SelectAll_frame [simp]:
  "item_map (SelectAll s) = item_map s" "scene_edges (SelectAll s) = scene_edges s"
  "scene_items (SelectAll s) = scene_items s"
  by (simp_all add: SelectAll_def)

text \<open>
  C3 (as amended). After \<^verbatim>\<open>DeselectAll\<close> no item of the scene is selected, so, the
  items of \<^verbatim>\<open>item_map_\<close> and the edges of \<^verbatim>\<open>edges_\<close> being items of the scene,
  \<^verbatim>\<open>GetSelectedNodes\<close>, \<^verbatim>\<open>GetSelectedItems\<close> and \<^verbatim>\<open>GetSelectedEdges\<close> return empty
  lists. After \<^verbatim>\<open>SelectAll\<close> an item of the scene is selected exactly when it can be
  selected (it has the selectable flag and is enabled and visible), so, the items of
  \<^verbatim>\<open>item_map_\<close> being such items of the scene, \<^verbatim>\<open>GetSelectedNodes\<close> returns the keys
  of \<^verbatim>\<open>item_map_\<close>, each once, in the map's iteration order.
\<close>

theorem select_all_deselect_all:
  "(\<forall>r \<in> set (scene_items s). \<not> isSelected (DeselectAll s) r) \<and>
   (lists_in_scene s \<longrightarrow>
      GetSelectedNodes (DeselectAll s) = [] \<and> GetSelectedItems (DeselectAll s) = [] \<and>
      GetSelectedEdges (DeselectAll s) = []) \<and>
   (\<forall>r \<in> set (scene_items s). isSelected (SelectAll s) r = can_be_selected s r) \<and>
   (lists_in_scene s \<and> (\<forall>kv \<in> set (item_map s). can_be_selected s (NodeItemRef (snd kv))) \<longrightarrow>
      GetSelectedNodes (SelectAll s) = map fst (item_map s))"
proof -
  have none: "\<forall>r \<in> set (scene_items s). \<not> isSelected (DeselectAll s) r"
    by (simp add: isSelected_DeselectAll)
  have empty: "GetSelectedNodes (DeselectAll s) = [] \<and> GetSelectedItems (DeselectAll s) = [] \<and>
      GetSelectedEdges (DeselectAll s) = []" if "lists_in_scene s"
    using that
    by (auto simp add: GetSelectedNodes_def GetSelectedItems_def GetSelectedEdges_def
        lists_in_scene_def isSelected_DeselectAll filter_empty_conv)
  have every: "\<forall>r \<in> set (scene_items s). isSelected (SelectAll s) r = can_be_selected s r"
    by (simp add: isSelected_SelectAll)
  have keys: "GetSelectedNodes (SelectAll s) = map fst (item_map s)"
    if "lists_in_scene s" "\<forall>kv \<in> set (item_map s). can_be_selected s (NodeItemRef (snd kv))"
  proof -
    from that have "\<forall>kv \<in> set (item_map s). isSelected (SelectAll s) (NodeItemRef (snd kv))"
      by (simp add: isSelected_SelectAll lists_in_scene_def)
    then have "filter (\<lambda>kv. isSelected (SelectAll s) (NodeItemRef (snd kv))) (item_map s) = item_map s"
      by (simp add: filter_id_conv)
    then show ?thesis
      by (simp add: GetSelectedNodes_def)
  qed
  from none empty every keys show ?thesis by blast
qed

text \<open>
  C3 as stated fails: after \<^verbatim>\<open>SelectAll\<close> on \<open>scene0\<close> the connector at address 11, an
  item of the scene, is not selected.
\<close>

theorem SelectAll_skips_unselectable:
  "OtherItemRef 11 \<in> set (scene_items scene0) \<and>
   isSelected (SelectAll scene0) (OtherItemRef 11) = False"
  by (simp add: isSelected_SelectAll scene0_def can_be_selected_def)

theorem select_all_deselect_all_witness:
  "lists_in_scene scene0 \<and>
   GetSelectedNodes scene0 = [] \<and>
   GetSelectedNodes (SelectAll scene0) = [1, 2] \<and>
   isSelected (SelectAll scene0) (NodeItemRef 10) \<and>
   lists_in_scene (SelectAll scene0) \<and>
   GetSelectedNodes (DeselectAll (SelectAll scene0)) = [] \<and>
   GetSelectedItems (DeselectAll (SelectAll scene0)) = [] \<and>
   GetSelectedEdges (DeselectAll (SelectAll scene0)) = [] \<and>
   isSelected (DeselectAll (SelectAll scene0)) (NodeItemRef 10) = False"
proof -
  have l: "lists_in_scene scene0"
    by (simp add: lists_in_scene_def scene0_def)
  have c: "\<forall>kv \<in> set (item_map scene0). can_be_selected scene0 (NodeItemRef (snd kv))"
    by (simp add: scene0_def can_be_selected_def)
  have m: "NodeItemRef 10 \<in> set (scene_items scene0)" "can_be_selected scene0 (NodeItemRef 10)"
    "map fst (item_map scene0) = [1, 2]"
    by (simp_all add: scene0_def can_be_selected_def)
  have n: "GetSelectedNodes scene0 = []"
    by (simp add: GetSelectedNodes_def scene0_def isSelected_def)
  have l': "lists_in_scene (SelectAll scene0)"
    using l by (simp add: lists_in_scene_def)
  from select_all_deselect_all [of scene0] l c m
  have a: "GetSelectedNodes (SelectAll scene0) = [1, 2]" "isSelected (SelectAll scene0) (NodeItemRef 10)"
    by simp_all
  from select_all_deselect_all [of "SelectAll scene0"] l' m(1)
  have b: "GetSelectedNodes (DeselectAll (SelectAll scene0)) = []"
    "GetSelectedItems (DeselectAll (SelectAll scene0)) = []"
    "GetSelectedEdges (DeselectAll (SelectAll scene0)) = []"
    "isSelected (DeselectAll (SelectAll scene0)) (NodeItemRef 10) = False"
    by simp_all
  from l n a l' b show ?thesis by simp
qed

subsection \<open>Adding and removing edges\<close>

lemma count_list_remove1:
  "count_list (remove1 a xs) b = (if a = b then count_list xs b - 1 else count_list xs b)"
  by (induction xs) auto

lemma filter_at_most_one:
  "distinct xs \<Longrightarrow> (\<forall>a \<in> set xs. \<forall>b \<in> set xs. P a \<and> P b \<longrightarrow> a = b) \<Longrightarrow>
   length (filter P xs) \<le> 1"
proof (induction xs)
  case Nil
  show ?case by simp
next
  case (Cons x xs)
  show ?case
  proof (cases "P x")
    case True
    with Cons.prems have "\<forall>y \<in> set xs. \<not> P y" by auto
    then have "filter P xs = []" by (simp add: filter_empty_conv)
    with True show ?thesis by simp
  next
    case False
    with Cons show ?thesis by simp
  qed
qed

lemma EdgeToUIObject_Some:
  "EdgeToUIObject s output inp = Some e \<Longrightarrow> e \<in> set (scene_edges s) \<and> joins s output inp e"
  by (auto simp add: EdgeToUIObject_def joins_def find_Some_iff)

lemma EdgeToUIObject_None:
  "EdgeToUIObject s output inp = None \<longleftrightarrow> (\<forall>e \<in> set (scene_edges s). \<not> joins s output inp e)"
  by (auto simp add: EdgeToUIObject_def joins_def find_None_iff)

lemma registered_both_ends:
  assumes "edges_registered s" and "e \<in> set (scene_edges s)"
  shows "e \<in> set (item_edges (node_item_objs s (from_item (edge_objs s e))))"
    and "e \<in> set (item_edges (node_item_objs s (to_item (edge_objs s e))))"
proof -
  from assms have c: "count_list (item_edges (node_item_objs s i)) e = ends_at s e i" for i
    by (simp add: edges_registered_def)
  have "count_list (item_edges (node_item_objs s (from_item (edge_objs s e)))) e \<noteq> 0"
    by (simp add: c ends_at_def)
  then show "e \<in> set (item_edges (node_item_objs s (from_item (edge_objs s e))))"
    by (simp add: count_list_0_iff)
  have "count_list (item_edges (node_item_objs s (to_item (edge_objs s e)))) e \<noteq> 0"
    by (simp add: c ends_at_def)
  then show "e \<in> set (item_edges (node_item_objs s (to_item (edge_objs s e))))"
    by (simp add: count_list_0_iff)
qed

lemma AddEdgeInternal_fields:
  "\<exists>s'. AddEdgeInternal s output inp (Some f) (Some t) = Inr (next_edge s, s') \<and>
     scene_edges s' = scene_edges s @ [next_edge s] \<and>
     scene_items s' = scene_items s @ [EdgeItemRef (next_edge s)] \<and>
     next_edge s' = Suc (next_edge s) \<and>
     edge_objs s' = (edge_objs s)
        (next_edge s := \<lparr>edge_output = output, edge_input = inp, from_item = f, to_item = t,
                         edge_flow_dir = direction s, edge_curved = curved_edges s\<rparr>) \<and>
     (\<forall>i. item_edges (node_item_objs s' i) =
            item_edges (node_item_objs s i) @ (if i = f then [next_edge s] else [])
              @ (if i = t then [next_edge s] else []))"
  by (simp add: AddEdgeInternal_def Let_def AddEdge_item_def)

lemma edges_registered_added:
  assumes inv: "edges_registered s"
    and fresh: "\<forall>e \<in> set (scene_edges s). \<not> joins s output inp e"
    and E: "scene_edges s' = scene_edges s @ [next_edge s]"
    and I: "scene_items s' = scene_items s @ [EdgeItemRef (next_edge s)]"
    and N: "next_edge s' = Suc (next_edge s)"
    and O: "edge_objs s' = (edge_objs s)
        (next_edge s := \<lparr>edge_output = output, edge_input = inp, from_item = f, to_item = t,
                         edge_flow_dir = dir, edge_curved = cur\<rparr>)"
    and L: "\<forall>i. item_edges (node_item_objs s' i) =
            item_edges (node_item_objs s i) @ (if i = f then [next_edge s] else [])
              @ (if i = t then [next_edge s] else [])"
  shows "edges_registered s'"
proof -
  let ?n = "next_edge s"
  from inv have below: "\<forall>e \<in> set (scene_edges s). e < ?n"
    by (simp add: edges_registered_def)
  then have new: "?n \<notin> set (scene_edges s)" by auto
  have old: "edge_objs s' e = edge_objs s e" if "e \<in> set (scene_edges s)" for e
    using that new by (auto simp add: O)
  have d: "distinct (scene_edges s')"
    using inv new by (simp add: E edges_registered_def)
  have newobj: "edge_output (edge_objs s' ?n) = output" "edge_input (edge_objs s' ?n) = inp"
    by (simp_all add: O)
  have clash: False
    if "e \<in> set (scene_edges s)"
      and "edge_output (edge_objs s' e) = output" "edge_input (edge_objs s' e) = inp" for e
  proof -
    from that old [OF that(1)] have "joins s output inp e"
      by (simp add: joins_def)
    with fresh that(1) show False by blast
  qed
  have u: "\<forall>e1 \<in> set (scene_edges s'). \<forall>e2 \<in> set (scene_edges s').
          edge_output (edge_objs s' e1) = edge_output (edge_objs s' e2) \<and>
          edge_input (edge_objs s' e1) = edge_input (edge_objs s' e2) \<longrightarrow> e1 = e2"
  proof (intro ballI impI)
    fix e1 e2
    assume m: "e1 \<in> set (scene_edges s')" "e2 \<in> set (scene_edges s')"
      and eq: "edge_output (edge_objs s' e1) = edge_output (edge_objs s' e2) \<and>
               edge_input (edge_objs s' e1) = edge_input (edge_objs s' e2)"
    show "e1 = e2"
    proof (cases "e1 = ?n")
      case True
      show ?thesis
      proof (cases "e2 = ?n")
        case True
        with \<open>e1 = ?n\<close> show ?thesis by simp
      next
        case False
        with m E have "e2 \<in> set (scene_edges s)" by simp
        moreover from eq True newobj have "edge_output (edge_objs s' e2) = output"
          "edge_input (edge_objs s' e2) = inp" by simp_all
        ultimately have False by (rule clash)
        then show ?thesis ..
      qed
    next
      case False
      with m E have in1: "e1 \<in> set (scene_edges s)" by simp
      show ?thesis
      proof (cases "e2 = ?n")
        case True
        with eq newobj have "edge_output (edge_objs s' e1) = output"
          "edge_input (edge_objs s' e1) = inp" by simp_all
        with in1 have False by (rule clash)
        then show ?thesis ..
      next
        case False
        with m E have in2: "e2 \<in> set (scene_edges s)" by simp
        from eq old [OF in1] old [OF in2]
        have "edge_output (edge_objs s e1) = edge_output (edge_objs s e2) \<and>
              edge_input (edge_objs s e1) = edge_input (edge_objs s e2)" by simp
        with inv in1 in2 show ?thesis
          unfolding edges_registered_def by blast
      qed
    qed
  qed
  have i: "\<forall>e \<in> set (scene_edges s'). EdgeItemRef e \<in> set (scene_items s')"
    using inv by (auto simp add: E I edges_registered_def)
  have c: "count_list (item_edges (node_item_objs s' i)) e =
             (if e \<in> set (scene_edges s') then ends_at s' e i else 0)" for i e
  proof (cases "e = ?n")
    case True
    from inv new have "count_list (item_edges (node_item_objs s i)) ?n = 0"
      by (simp add: edges_registered_def)
    with True show ?thesis
      by (simp add: L E ends_at_def O)
  next
    case False
    have "ends_at s' e i = ends_at s e i"
      using False by (simp add: ends_at_def O)
    moreover from inv have "count_list (item_edges (node_item_objs s i)) e =
        (if e \<in> set (scene_edges s) then ends_at s e i else 0)"
      by (simp add: edges_registered_def)
    ultimately show ?thesis
      using False by (simp add: L E)
  qed
  have b: "\<forall>e \<in> set (scene_edges s'). e < next_edge s'"
    using below by (auto simp add: E N)
  from d u i c b show ?thesis
    unfolding edges_registered_def by blast
qed

lemma RemoveEdge_fields:
  assumes "EdgeToUIObject s output inp = Some e"
  shows "scene_edges (RemoveEdge s output inp) = remove1 e (scene_edges s)"
    and "scene_items (RemoveEdge s output inp) = removeAll (EdgeItemRef e) (scene_items s)"
    and "next_edge (RemoveEdge s output inp) = next_edge s"
    and "edge_objs (RemoveEdge s output inp) = edge_objs s"
    and "item_edges (node_item_objs (RemoveEdge s output inp) i) =
           (if i = to_item (edge_objs s e) then remove1 e else id)
             ((if i = from_item (edge_objs s e) then remove1 e else id)
                (item_edges (node_item_objs s i)))"
  using assms by (simp_all add: RemoveEdge_def Let_def RemoveEdge_item_def)

lemma edges_registered_removed:
  assumes inv: "edges_registered s"
  shows "edges_registered (RemoveEdge s output inp)"
proof (cases "EdgeToUIObject s output inp")
  case None
  then have "RemoveEdge s output inp = s" by (simp add: RemoveEdge_def)
  with inv show ?thesis by simp
next
  case (Some e)
  let ?s = "RemoveEdge s output inp"
  note F = RemoveEdge_fields [OF Some]
  from inv have dist: "distinct (scene_edges s)"
    by (simp add: edges_registered_def)
  then have rest: "set (scene_edges ?s) = set (scene_edges s) - {e}"
    by (simp add: F(1))
  have d: "distinct (scene_edges ?s)"
    using dist by (simp add: F(1))
  have u: "\<forall>e1 \<in> set (scene_edges ?s). \<forall>e2 \<in> set (scene_edges ?s).
          edge_output (edge_objs ?s e1) = edge_output (edge_objs ?s e2) \<and>
          edge_input (edge_objs ?s e1) = edge_input (edge_objs ?s e2) \<longrightarrow> e1 = e2"
    using inv by (simp add: rest F(4) edges_registered_def)
  have i: "\<forall>e' \<in> set (scene_edges ?s). EdgeItemRef e' \<in> set (scene_items ?s)"
    using inv by (auto simp add: rest F(2) edges_registered_def)
  have c: "count_list (item_edges (node_item_objs ?s i)) e' =
             (if e' \<in> set (scene_edges ?s) then ends_at ?s e' i else 0)" for i e'
  proof -
    from inv have old: "count_list (item_edges (node_item_objs s i)) e' =
        (if e' \<in> set (scene_edges s) then ends_at s e' i else 0)"
      by (simp add: edges_registered_def)
    have same: "ends_at ?s e' i = ends_at s e' i"
      by (simp add: ends_at_def F(4))
    show ?thesis
    proof (cases "e' = e")
      case True
      from EdgeToUIObject_Some [OF Some] have "e \<in> set (scene_edges s)" by simp
      with old True have "count_list (item_edges (node_item_objs s i)) e = ends_at s e i"
        by simp
      then have "count_list (item_edges (node_item_objs ?s i)) e = 0"
        by (auto simp add: F(5) count_list_remove1 ends_at_def split: if_splits)
      with True rest show ?thesis by simp
    next
      case False
      then have "count_list (item_edges (node_item_objs ?s i)) e' =
          count_list (item_edges (node_item_objs s i)) e'"
        by (simp add: F(5) count_list_remove1)
      with old same False rest show ?thesis by simp
    qed
  qed
  have b: "\<forall>e' \<in> set (scene_edges ?s). e' < next_edge ?s"
    using inv by (simp add: rest F(3) edges_registered_def)
  from d u i c b show ?thesis
    unfolding edges_registered_def by blast
qed

lemma AddEdge_null_endpoint:
  assumes "EdgeToUIObject s output inp = None"
    and "NodeToUIObject s output = None \<or> NodeToUIObject s (ni_node inp) = None"
  shows "AddEdge s output inp = Inl NullPointerDereference"
  using assms by (auto simp add: AddEdge_def AddEdgeInternal_def split: option.splits)

text \<open>
  C5 (as amended). In a scene whose edge lists satisfy the invariant
  \<open>edges_registered\<close>: at most one edge of the scene joins a given output to a given
  input, and every edge of the scene is in the edge lists of both its end items;
  \<^verbatim>\<open>AddEdge\<close> returns the existing edge and leaves the scene as it is when there is one;
  otherwise, when the output node and the input's node both have items in
  \<^verbatim>\<open>item_map_\<close>, it returns a new edge that joins the output to the input, is the last
  of the scene's edge list and is in the edge lists of both end items; \<^verbatim>\<open>RemoveEdge\<close>
  leaves the edge it found in none of the three kinds of list, and no edge for the pair
  in the scene; and the scene after either operation satisfies the invariant again.
\<close>

theorem edges_at_most_one_and_registered:
  assumes inv: "edges_registered s"
  shows "length (filter (joins s output inp) (scene_edges s)) \<le> 1 \<and>
    (\<forall>e \<in> set (scene_edges s).
        e \<in> set (item_edges (node_item_objs s (from_item (edge_objs s e)))) \<and>
        e \<in> set (item_edges (node_item_objs s (to_item (edge_objs s e))))) \<and>
    (\<forall>e. EdgeToUIObject s output inp = Some e \<longrightarrow> AddEdge s output inp = Inr (e, s)) \<and>
    (EdgeToUIObject s output inp = None \<and> NodeToUIObject s output = Some f \<and>
     NodeToUIObject s (ni_node inp) = Some t \<longrightarrow>
       (\<exists>s'. AddEdge s output inp = Inr (next_edge s, s') \<and>
             scene_edges s' = scene_edges s @ [next_edge s] \<and>
             joins s' output inp (next_edge s) \<and>
             from_item (edge_objs s' (next_edge s)) = f \<and>
             to_item (edge_objs s' (next_edge s)) = t \<and>
             next_edge s \<in> set (item_edges (node_item_objs s' f)) \<and>
             next_edge s \<in> set (item_edges (node_item_objs s' t)) \<and>
             edges_registered s')) \<and>
    (\<forall>e. EdgeToUIObject s output inp = Some e \<longrightarrow>
        e \<notin> set (scene_edges (RemoveEdge s output inp)) \<and>
        (\<forall>i. e \<notin> set (item_edges (node_item_objs (RemoveEdge s output inp) i)))) \<and>
    EdgeToUIObject (RemoveEdge s output inp) output inp = None \<and>
    edges_registered (RemoveEdge s output inp)"
proof -
  from inv have dist: "distinct (scene_edges s)"
    and uniq: "\<forall>a \<in> set (scene_edges s). \<forall>b \<in> set (scene_edges s).
                 joins s output inp a \<and> joins s output inp b \<longrightarrow> a = b"
    by (auto simp add: edges_registered_def joins_def)
  have one: "length (filter (joins s output inp) (scene_edges s)) \<le> 1"
    using dist uniq by (rule filter_at_most_one)
  have both: "\<forall>e \<in> set (scene_edges s).
        e \<in> set (item_edges (node_item_objs s (from_item (edge_objs s e)))) \<and>
        e \<in> set (item_edges (node_item_objs s (to_item (edge_objs s e))))"
    using registered_both_ends [OF inv] by blast
  have existing: "\<forall>e. EdgeToUIObject s output inp = Some e \<longrightarrow> AddEdge s output inp = Inr (e, s)"
    by (simp add: AddEdge_def)
  have created: "\<exists>s'. AddEdge s output inp = Inr (next_edge s, s') \<and>
             scene_edges s' = scene_edges s @ [next_edge s] \<and>
             joins s' output inp (next_edge s) \<and>
             from_item (edge_objs s' (next_edge s)) = f \<and>
             to_item (edge_objs s' (next_edge s)) = t \<and>
             next_edge s \<in> set (item_edges (node_item_objs s' f)) \<and>
             next_edge s \<in> set (item_edges (node_item_objs s' t)) \<and>
             edges_registered s'"
    if none: "EdgeToUIObject s output inp = None"
      and ends: "NodeToUIObject s output = Some f" "NodeToUIObject s (ni_node inp) = Some t"
  proof -
    from AddEdgeInternal_fields [of s "output" inp f t]
    obtain s' where r: "AddEdgeInternal s output inp (Some f) (Some t) = Inr (next_edge s, s')"
      and E: "scene_edges s' = scene_edges s @ [next_edge s]"
      and I: "scene_items s' = scene_items s @ [EdgeItemRef (next_edge s)]"
      and N: "next_edge s' = Suc (next_edge s)"
      and O: "edge_objs s' = (edge_objs s)
        (next_edge s := \<lparr>edge_output = output, edge_input = inp, from_item = f, to_item = t,
                         edge_flow_dir = direction s, edge_curved = curved_edges s\<rparr>)"
      and L: "\<forall>i. item_edges (node_item_objs s' i) =
            item_edges (node_item_objs s i) @ (if i = f then [next_edge s] else [])
              @ (if i = t then [next_edge s] else [])"
      by blast
    from none have fresh: "\<forall>e \<in> set (scene_edges s). \<not> joins s output inp e"
      by (simp add: EdgeToUIObject_None)
    have "AddEdge s output inp = Inr (next_edge s, s')"
      using none ends r by (simp add: AddEdge_def)
    moreover have "joins s' output inp (next_edge s)"
      by (simp add: joins_def O)
    moreover have "from_item (edge_objs s' (next_edge s)) = f"
      "to_item (edge_objs s' (next_edge s)) = t"
      by (simp_all add: O)
    moreover have "next_edge s \<in> set (item_edges (node_item_objs s' f))"
      "next_edge s \<in> set (item_edges (node_item_objs s' t))"
      by (simp_all add: L)
    moreover have "edges_registered s'"
      using inv fresh E I N O L by (rule edges_registered_added)
    ultimately show ?thesis
      using E by blast
  qed
  have gone: "e \<notin> set (scene_edges (RemoveEdge s output inp)) \<and>
        (\<forall>i. e \<notin> set (item_edges (node_item_objs (RemoveEdge s output inp) i)))"
    if found: "EdgeToUIObject s output inp = Some e" for e
  proof -
    let ?s = "RemoveEdge s output inp"
    have out: "e \<notin> set (scene_edges ?s)"
      using dist by (simp add: RemoveEdge_fields(1) [OF found])
    from edges_registered_removed [OF inv, of "output" inp] out
    have "count_list (item_edges (node_item_objs ?s i)) e = 0" for i
      by (simp add: edges_registered_def)
    then have "\<forall>i. e \<notin> set (item_edges (node_item_objs ?s i))"
      by (simp add: count_list_0_iff)
    with out show ?thesis by blast
  qed
  have nomore: "EdgeToUIObject (RemoveEdge s output inp) output inp = None"
  proof (cases "EdgeToUIObject s output inp")
    case None
    then show ?thesis by (simp add: RemoveEdge_def)
  next
    case (Some e)
    note F = RemoveEdge_fields [OF Some]
    from EdgeToUIObject_Some [OF Some] have e: "e \<in> set (scene_edges s)" "joins s output inp e"
      by simp_all
    have "\<not> joins (RemoveEdge s output inp) output inp e'"
      if "e' \<in> set (scene_edges (RemoveEdge s output inp))" for e'
    proof
      assume j: "joins (RemoveEdge s output inp) output inp e'"
      from that dist have m: "e' \<in> set (scene_edges s)" "e' \<noteq> e"
        by (simp_all add: F(1))
      from j have "joins s output inp e'"
        by (simp add: joins_def F(4))
      with uniq m(1) e have "e' = e" by blast
      with m(2) show False by simp
    qed
    then show ?thesis
      by (simp add: EdgeToUIObject_None)
  qed
  from one both existing created gone nomore edges_registered_removed [OF inv, of "output" inp]
  show ?thesis by blast
qed

lemma scene0_registered: "edges_registered scene0"
  by (simp add: edges_registered_def scene0_def item0_def NodeViewItem_new_def Let_def)

text \<open>
  C5 as stated fails: \<open>scene0\<close> satisfies the invariant and has no edge from node 3 to
  \<open>input0\<close>, but node 3 has no item in \<^verbatim>\<open>item_map_\<close>; \<^verbatim>\<open>AddEdge\<close> creates no edge for
  this pair, it dereferences the null pointer that \<^verbatim>\<open>NodeToUIObject\<close> returned.
\<close>

theorem AddEdge_without_item:
  "edges_registered scene0 \<and>
   EdgeToUIObject scene0 3 input0 = None \<and>
   NodeToUIObject scene0 3 = None \<and>
   AddEdge scene0 3 input0 = Inl NullPointerDereference"
proof -
  have none: "EdgeToUIObject scene0 3 input0 = None"
    by (simp add: EdgeToUIObject_def scene0_def)
  have null: "NodeToUIObject scene0 3 = None"
    by (simp add: NodeToUIObject_def scene0_def)
  from none null have "AddEdge scene0 3 input0 = Inl NullPointerDereference"
    by (simp add: AddEdge_null_endpoint)
  with scene0_registered none null show ?thesis by simp
qed

theorem edges_at_most_one_and_registered_witness:
  "edges_registered scene0 \<and>
   EdgeToUIObject scene0 1 input0 = None \<and>
   NodeToUIObject scene0 1 = Some 10 \<and>
   NodeToUIObject scene0 (ni_node input0) = Some 20 \<and>
   (\<exists>s'. AddEdge scene0 1 input0 = Inr (100, s') \<and>
         scene_edges s' = [100] \<and>
         100 \<in> set (item_edges (node_item_objs s' 10)) \<and>
         100 \<in> set (item_edges (node_item_objs s' 20)) \<and>
         edges_registered s' \<and>
         AddEdge s' 1 input0 = Inr (100, s') \<and>
         100 \<notin> set (scene_edges (RemoveEdge s' 1 input0)) \<and>
         100 \<notin> set (item_edges (node_item_objs (RemoveEdge s' 1 input0) 10)) \<and>
         edges_registered (RemoveEdge s' 1 input0))"
proof -
  have none: "EdgeToUIObject scene0 1 input0 = None"
    by (simp add: EdgeToUIObject_def scene0_def)
  have ends: "NodeToUIObject scene0 1 = Some 10" "NodeToUIObject scene0 (ni_node input0) = Some 20"
    by (simp_all add: NodeToUIObject_def scene0_def input0_def)
  have nx: "next_edge scene0 = 100" "scene_edges scene0 = []"
    by (simp_all add: scene0_def)
  from edges_at_most_one_and_registered [OF scene0_registered, of 1 input0 10 20] none ends
  obtain s' where a: "AddEdge scene0 1 input0 = Inr (100, s')"
    and E: "scene_edges s' = [100]"
    and j: "joins s' 1 input0 100"
    and m: "100 \<in> set (item_edges (node_item_objs s' 10))"
      "100 \<in> set (item_edges (node_item_objs s' 20))"
    and r: "edges_registered s'"
    by (auto simp add: nx)
  from E j have found: "EdgeToUIObject s' 1 input0 = Some 100"
    by (simp add: EdgeToUIObject_def joins_def)
  from edges_at_most_one_and_registered [OF r, of 1 input0] found
  have b: "AddEdge s' 1 input0 = Inr (100, s')"
    "100 \<notin> set (scene_edges (RemoveEdge s' 1 input0))"
    "100 \<notin> set (item_edges (node_item_objs (RemoveEdge s' 1 input0) 10))"
    "edges_registered (RemoveEdge s' 1 input0)"
    by simp_all
  from scene0_registered none ends a E m r b show ?thesis by blast
qed

subsection \<open>The layout weight\<close>

lemma leaves_positive: "1 \<le> leaves t"
proof (induction t)
  case (DNode ts)
  show ?case
  proof (cases ts)
    case Nil
    then show ?thesis by simp
  next
    case (Cons u us)
    have "0 \<le> x" if "x \<in> set (map leaves us)" for x
      using that DNode.IH Cons by force
    then have "0 \<le> sum_list (map leaves us)"
      by (rule sum_list_nonneg)
    moreover have "1 \<le> leaves u"
      using DNode.IH Cons by simp
    ultimately show ?thesis
      using Cons by simp
  qed
qed

lemma max_one_sum_leaves:
  "max 1 (sum_list (map leaves ts)) = leaves (DNode ts)"
proof (cases ts)
  case Nil
  then show ?thesis by simp
next
  case (Cons u us)
  have "0 \<le> x" if "x \<in> set (map leaves us)" for x
  proof -
    from that obtain w where "x = leaves w" by auto
    with leaves_positive [of w] show ?thesis by simp
  qed
  then have "0 \<le> sum_list (map leaves us)"
    by (rule sum_list_nonneg)
  with leaves_positive [of u] Cons show ?thesis by simp
qed

lemma weight_loop_reference:
  assumes "\<And>i. rec i = map_option leaves (tr i)"
  shows "weight_loop rec single ins weight =
           map_option (\<lambda>ts. weight + sum_list (map leaves ts))
             (those (map tr (filter single ins)))"
proof (induction ins arbitrary: weight)
  case Nil
  show ?case by simp
next
  case (Cons i ins)
  show ?case
  proof (cases "single i")
    case False
    with Cons.IH show ?thesis by simp
  next
    case True
    show ?thesis
    proof (cases "tr i")
      case None
      with True assms [of i] show ?thesis by simp
    next
      case (Some t)
      with True assms [of i] Cons.IH [of "weight + leaves t"] show ?thesis
        by (cases "those (map tr (filter single ins))") (simp_all add: add.assoc)
    qed
  qed
qed

lemma DetermineWeight_leaves:
  "DetermineWeight g depth n = DetermineWeight_reference g depth n"
proof (induction depth arbitrary: n)
  case 0
  show ?case by (simp add: DetermineWeight_reference_def)
next
  case (Suc depth)
  have rec: "DetermineWeight g depth i = map_option leaves (single_route_tree g depth i)" for i
    using Suc.IH by (simp add: DetermineWeight_reference_def)
  show ?case
    by (simp add: weight_loop_reference [OF rec] DetermineWeight_reference_def
        option.map_comp comp_def max_one_sum_leaves del: leaves.simps)
qed

lemma those_all_Some:
  "(\<And>x. x \<in> set xs \<Longrightarrow> x \<noteq> None) \<Longrightarrow> \<exists>ys. those xs = Some ys"
proof (induction xs)
  case Nil
  show ?case by simp
next
  case (Cons x xs)
  from Cons.prems [of x] obtain y where "x = Some y" by auto
  moreover from Cons obtain ys where "those xs = Some ys" by auto
  ultimately show ?case by simp
qed

text \<open>
  The recursion returns on a graph without dependency cycles: with a rank that
  decreases along every dependency, a depth bound above the node's rank is enough.
\<close>

lemma single_route_tree_returns:
  assumes "\<And>n i. i \<in> set (GetImmediateDependencies g n) \<Longrightarrow> rank i < rank n"
  shows "rank n < depth \<Longrightarrow> \<exists>t. single_route_tree g depth n = Some t"
proof (induction depth arbitrary: n)
  case 0
  then show ?case by simp
next
  case (Suc depth)
  let ?deps = "filter (\<lambda>i. GetNumberOfRoutesTo g i n = 1) (GetImmediateDependencies g n)"
  have "x \<noteq> None" if "x \<in> set (map (single_route_tree g depth) ?deps)" for x
  proof -
    from that obtain i where i: "i \<in> set (GetImmediateDependencies g n)"
      and x: "x = single_route_tree g depth i" by auto
    from assms [OF i] Suc.prems have "rank i < depth" by simp
    from Suc.IH [OF this] x show ?thesis by auto
  qed
  then obtain ts where "those (map (single_route_tree g depth) ?deps) = Some ts"
    using those_all_Some by blast
  then show ?case by simp
qed

lemma DetermineWeight_returns:
  assumes "\<And>n i. i \<in> set (GetImmediateDependencies g n) \<Longrightarrow> rank i < rank n"
  shows "\<exists>w. DetermineWeight g (Suc (rank n)) n = Some w"
proof -
  from single_route_tree_returns [of g rank n "Suc (rank n)"] assms
  obtain t where "single_route_tree g (Suc (rank n)) n = Some t" by auto
  then show ?thesis
    by (simp add: DetermineWeight_leaves DetermineWeight_reference_def del: single_route_tree.simps)
qed

lemma DetermineWeight_graph0: "DetermineWeight graph0 3 1 = Some 2"
  by (simp add: graph0_def numeral_3_eq_3)

subsection \<open>A reference for node positioning\<close>



end
